theory Spec2Isabelle
  imports Complex_Main "HOL-Library.Sublist"
begin

section \<open>YOLACT post-processing (yolact.hpp): data model\<close>

text \<open>
  The C++ \<open>float\<close> is modelled as \<open>real\<close>: comparisons are those of the source,
  arithmetic is exact (no rounding, no NaN, no infinities).  A \<open>float *\<close> buffer is a
  function from the element index to its value.
\<close>

type_synonym floats = "nat \<Rightarrow> real"

text \<open>\<open>box_t\<close> (lines 174-182); the fields carry the prefix \<open>box_\<close>.\<close>

record box_t =
  box_label :: nat
  box_score :: real
  box_x :: real
  box_y :: real
  box_w :: real
  box_h :: real

text \<open>
  The macros of lines 46-57 as a configuration record, so that the thresholds can be
  varied; \<open>reference_config\<close> holds the values of the source.
\<close>

record config =
  PROTO_HW :: nat
  PROTO_C :: nat
  NUM_PRIORS :: nat
  NUM_CLASSES :: nat
  NMS_CONF_THRESH :: real
  NMS_THRESH :: real
  NMS_TOP_K :: nat
  KEEP_TOP_K :: nat

definition reference_config :: config where
  "reference_config =
     \<lparr>PROTO_HW = 138, PROTO_C = 32, NUM_PRIORS = 19248, NUM_CLASSES = 81,
      NMS_CONF_THRESH = 0.6, NMS_THRESH = 0.2, NMS_TOP_K = 200, KEEP_TOP_K = 15\<rparr>"

text \<open>
  The per-image members \<open>decoded_bboxes\<close> and \<open>masks\<close> (lines 195-196), both
  \<open>std::map<int, std::vector<float>>\<close>.  \<open>decode_calls\<close> is not a member of the class:
  it records, in order, the index argument of every call of \<open>decode_bbox\<close>, so that the
  number of decodings can be stated.
\<close>

record det_state =
  decoded_bboxes :: "nat \<rightharpoonup> real list"
  masks :: "nat \<rightharpoonup> real list"
  decode_calls :: "nat list"

text \<open>\<open>std::map::emplace\<close>: inserts only when the key is absent.\<close>

definition emplace :: "'k \<Rightarrow> 'v \<Rightarrow> ('k \<rightharpoonup> 'v) \<Rightarrow> ('k \<rightharpoonup> 'v)" where
  "emplace k v m = (case m k of None \<Rightarrow> m(k \<mapsto> v) | Some u \<Rightarrow> m)"

section \<open>Prior boxes (\<open>create_priors\<close>, lines 230-267)\<close>

definition max_size :: nat where
  "max_size = 550"

definition fmap_dims :: "nat list" where
  "fmap_dims = [69, 35, 18, 9, 5]"

definition scales :: "nat list" where
  "scales = [24, 48, 96, 192, 384]"

definition aspect_ratios :: "real list list" where
  "aspect_ratios = [[1, 0.5, 2], [1, 0.5, 2], [1, 0.5, 2], [1, 0.5, 2], [1, 0.5, 2]]"

text \<open>
  The three boxes written for grid cell \<open>(i, j)\<close> of level \<open>k\<close>.  The local
  \<open>prior_box\<close> is never given a label or a score; \<open>pb\<close> is its uninitialised value.
\<close>

definition prior_cell :: "box_t \<Rightarrow> nat \<Rightarrow> nat \<Rightarrow> nat \<Rightarrow> box_t list" where
  "prior_cell pb k j i =
     (let scale = real (scales ! k);
          inv_fmap_dims = 1 / real (fmap_dims ! k)
      in map (\<lambda>r.
            let wd = scale * (aspect_ratios ! k ! r) / real max_size
            in pb\<lparr>box_x := (real i + 0.5) * inv_fmap_dims,
                  box_y := (real j + 0.5) * inv_fmap_dims,
                  box_w := wd,
                  box_h := wd\<rparr>) [0..<3])"

definition prior_level :: "box_t \<Rightarrow> nat \<Rightarrow> box_t list" where
  "prior_level pb k =
     concat (map (\<lambda>j. concat (map (\<lambda>i. prior_cell pb k j i) [0..<fmap_dims ! k]))
                 [0..<fmap_dims ! k])"

definition create_priors :: "box_t \<Rightarrow> box_t list" where
  "create_priors pb = concat (map (prior_level pb) [0..<5])"

text \<open>Index of the first prior of level \<open>k\<close>.\<close>

definition level_base :: "nat \<Rightarrow> nat" where
  "level_base k = sum_list (map (\<lambda>F. F * F * 3) (take k fmap_dims))"

section \<open>Box decoding (\<open>decode_bbox\<close>, lines 517-558)\<close>

text \<open>The arithmetic of \<open>decode_bbox\<close> on the four offsets and the prior box.\<close>

definition decode_box :: "real list \<Rightarrow> box_t \<Rightarrow> real list" where
  "decode_box bbox prior_box =
     (let var0 = 0.1; var1 = 0.2;
          decode_bbox_center_x = box_x prior_box + bbox ! 0 * var0 * box_w prior_box;
          decode_bbox_center_y = box_y prior_box + bbox ! 1 * var0 * box_h prior_box;
          decode_bbox_width = box_w prior_box * exp (bbox ! 2 * var1);
          decode_bbox_height = box_h prior_box * exp (bbox ! 3 * var1);
          b1 = bbox[0 := decode_bbox_center_x - decode_bbox_width / 2];
          b2 = b1[1 := decode_bbox_center_y - decode_bbox_height / 2];
          b3 = b2[2 := decode_bbox_center_x + decode_bbox_width / 2];
          b4 = b3[3 := decode_bbox_center_y + decode_bbox_height / 2];
          c1 = b4[0 := max (min (b4 ! 0) 1) 0];
          c2 = c1[1 := max (min (c1 ! 1) 1) 0];
          c3 = c2[2 := max (min (c2 ! 2) 1) 0];
          c4 = c3[3 := max (min (c3 ! 3) 1) 0];
          d1 = c4[0 := 0.5 * (c4 ! 0 + c4 ! 2)];
          d2 = d1[1 := 0.5 * (d1 ! 1 + d1 ! 3)];
          d3 = d2[2 := (d2 ! 2 - d2 ! 0) * 2];
          d4 = d3[3 := (d3 ! 3 - d3 ! 1) * 2]
      in d4)"

text \<open>The four floats at \<open>bbox_ptr = &loc_data[idx*4]\<close>.\<close>

definition loc_at :: "floats \<Rightarrow> nat \<Rightarrow> real list" where
  "loc_at loc_data idx = map (\<lambda>i. loc_data (idx * 4 + i)) [0..<4]"

definition decode_bbox :: "box_t list \<Rightarrow> floats \<Rightarrow> nat \<Rightarrow> det_state \<Rightarrow> det_state" where
  "decode_bbox prior_data loc_data idx st =
     st\<lparr>decoded_bboxes :=
          emplace idx (decode_box (loc_at loc_data idx) (prior_data ! idx)) (decoded_bboxes st),
        decode_calls := decode_calls st @ [idx]\<rparr>"

section \<open>Per-class ranking (\<open>get_one_class_max_score_index\<close>, lines 561-599)\<close>

text \<open>
  \<open>std::stable_sort\<close> with the comparator \<open>lhs > rhs\<close> on the key: descending, equal
  keys keep their order.  \<open>std::sort\<close> (line 693) is modelled by the same function; C++
  leaves the order of equal keys open there.
\<close>

definition sort_desc :: "('a \<Rightarrow> real) \<Rightarrow> 'a list \<Rightarrow> 'a list" where
  "sort_desc f xs = sort_key (\<lambda>e. - f e) xs"

definition get_one_class_max_score_index ::
  "config \<Rightarrow> floats \<Rightarrow> nat \<Rightarrow> (real \<times> nat) list \<Rightarrow> (real \<times> nat) list" where
  "get_one_class_max_score_index cfg conf_data label score_index_vec =
     (let scanned = score_index_vec @
            filter (\<lambda>p. fst p > NMS_CONF_THRESH cfg)
              (map (\<lambda>i. (conf_data (label + i * NUM_CLASSES cfg), i)) [0..<NUM_PRIORS cfg]);
          sorted_vec = sort_desc fst scanned
      in if NMS_TOP_K cfg < length sorted_vec then take (NMS_TOP_K cfg) sorted_vec
         else sorted_vec)"

definition get_multi_class_max_score_index ::
  "config \<Rightarrow> floats \<Rightarrow> nat \<Rightarrow> nat \<Rightarrow> (real \<times> nat) list list \<Rightarrow> (real \<times> nat) list list" where
  "get_multi_class_max_score_index cfg conf_data start_label num_classes score_index_vec =
     fold (\<lambda>i v. v[i := get_one_class_max_score_index cfg conf_data i (v ! i)])
          [start_label..<start_label + num_classes] score_index_vec"

section \<open>Per-class suppression (\<open>apply_one_class_nms\<close>, lines 602-648)\<close>

text \<open>The locals of \<open>apply_one_class_nms\<close> together with the object state.\<close>

record nms_vars =
  nv_state :: det_state
  nv_mask :: "real list"
  nv_boxes :: "real list list"
  nv_scores :: "real list"
  nv_resultmap :: "nat \<rightharpoonup> nat"
  nv_i :: nat

text \<open>The coefficients pushed by the loop of lines 627-630.\<close>

definition mask_coeffs :: "config \<Rightarrow> floats \<Rightarrow> nat \<Rightarrow> real list" where
  "mask_coeffs cfg mask_data idx = map (\<lambda>c. mask_data (idx * PROTO_C cfg + c)) [0..<PROTO_C cfg]"

text \<open>
  Lines 621-634 on the object state and the local \<open>mask\<close>: an index that has no
  decoded box yet is decoded and its coefficients are stored.  After
  \<open>masks.emplace(idx, std::move(mask))\<close> the local \<open>mask\<close> is empty.
\<close>

definition ensure_decoded ::
  "config \<Rightarrow> floats \<Rightarrow> floats \<Rightarrow> box_t list \<Rightarrow> nat \<Rightarrow> det_state \<times> real list \<Rightarrow>
   det_state \<times> real list" where
  "ensure_decoded cfg loc_data mask_data prior_data idx sm =
     (case sm of (st, mask_local) \<Rightarrow>
        if decoded_bboxes st idx = None \<and> idx < NUM_PRIORS cfg
        then (case decode_bbox prior_data loc_data idx st of st1 \<Rightarrow>
                (st1\<lparr>masks := emplace idx (mask_local @ mask_coeffs cfg mask_data idx)
                                      (masks st1)\<rparr>, []))
        else (st, mask_local))"

text \<open>\<open>decoded_bboxes[idx]\<close> (line 636): an absent key is inserted with an empty vector.\<close>

definition index_bbox :: "det_state \<Rightarrow> nat \<Rightarrow> real list \<times> det_state" where
  "index_bbox st idx =
     (case decoded_bboxes st idx of
        None \<Rightarrow> ([], st\<lparr>decoded_bboxes := (decoded_bboxes st)(idx \<mapsto> [])\<rparr>)
      | Some b \<Rightarrow> (b, st))"

text \<open>
  One iteration of the \<open>while\<close> loop (lines 617-640) for the entry \<open>e = (score, idx)\<close>
  of \<open>score_index_vec\<close>.
\<close>

definition nms_visit ::
  "config \<Rightarrow> floats \<Rightarrow> floats \<Rightarrow> box_t list \<Rightarrow> real \<times> nat \<Rightarrow> nms_vars \<Rightarrow> nms_vars" where
  "nms_visit cfg loc_data mask_data prior_data e v =
     (case ensure_decoded cfg loc_data mask_data prior_data (snd e) (nv_state v, nv_mask v) of
        (st1, mask1) \<Rightarrow>
          (case index_bbox st1 (snd e) of
             (box, st2) \<Rightarrow>
               \<lparr>nv_state = st2, nv_mask = mask1,
                nv_boxes = nv_boxes v @ [box],
                nv_scores = nv_scores v @ [fst e],
                nv_resultmap = (nv_resultmap v)(nv_i v \<mapsto> snd e),
                nv_i = nv_i v + 1\<rparr>))"

text \<open>
  \<open>applyNMS\<close> comes from the Vitis-AI library and is a parameter \<open>nmsf\<close> here: it takes
  the boxes, the scores, the IoU threshold and the confidence floor and returns the
  positions it keeps.  \<open>resultmap[r]\<close> yields 0 for a position that was never stored.
\<close>

type_synonym nms_fun = "real list list \<Rightarrow> real list \<Rightarrow> real \<Rightarrow> real \<Rightarrow> nat list"

definition apply_one_class_nms ::
  "nms_fun \<Rightarrow> config \<Rightarrow> floats \<Rightarrow> floats \<Rightarrow> box_t list \<Rightarrow> nat \<Rightarrow> (real \<times> nat) list \<Rightarrow>
   det_state \<Rightarrow> det_state \<times> nat list" where
  "apply_one_class_nms nmsf cfg loc_data mask_data prior_data label score_index_vec st =
     (let v = fold (nms_visit cfg loc_data mask_data prior_data) score_index_vec
                \<lparr>nv_state = st, nv_mask = [], nv_boxes = [], nv_scores = [],
                 nv_resultmap = Map.empty, nv_i = 0\<rparr>;
          results = nmsf (nv_boxes v) (nv_scores v) (NMS_THRESH cfg) (NMS_CONF_THRESH cfg)
      in (nv_state v,
          map (\<lambda>r. case nv_resultmap v r of None \<Rightarrow> 0 | Some idx \<Rightarrow> idx) results))"

section \<open>Greedy suppression (\<open>applyNMS\<close> of the Vitis-AI library)\<close>

text \<open>
  \<open>applyNMS\<close> (\<open>vitis/ai/nnpp/apply_nms.hpp\<close>) is not part of the source file; the
  four definitions of this section follow sections 4.4, 7 and 9 and the glossary of the
  specification.
\<close>

text \<open>
  Modelled from the spec: the extent shared by two intervals given by centre and size
  (boxes are in centre/size form); missing is the IoU helper of \<open>applyNMS\<close>.
\<close>

definition overlap :: "real \<Rightarrow> real \<Rightarrow> real \<Rightarrow> real \<Rightarrow> real" where
  "overlap x1 w1 x2 w2 = min (x1 + w1 / 2) (x2 + w2 / 2) - max (x1 - w1 / 2) (x2 - w2 / 2)"

text \<open>
  Modelled from the spec: the IoU of two centre/size boxes, missing with \<open>applyNMS\<close>:
  the ratio of the overlapping area to the union area, and 0 where the union has no
  area (never a division fault).
\<close>

definition iou :: "real list \<Rightarrow> real list \<Rightarrow> real" where
  "iou a b =
     (let ow = overlap (a ! 0) (a ! 2) (b ! 0) (b ! 2);
          oh = overlap (a ! 1) (a ! 3) (b ! 1) (b ! 3);
          inter_area = (if ow < 0 \<or> oh < 0 then 0 else ow * oh);
          union_area = a ! 2 * a ! 3 + b ! 2 * b ! 3 - inter_area
      in if union_area = 0 then 0 else inter_area / union_area)"

text \<open>
  Modelled from the spec: the greedy pass of \<open>applyNMS\<close> over the positions in ranking
  order: the first remaining candidate is accepted, and every remaining candidate whose
  IoU with it is above the threshold is discarded.
\<close>

fun greedy_nms :: "real \<Rightarrow> real list list \<Rightarrow> nat list \<Rightarrow> nat list" where
  "greedy_nms nms boxes [] = []"
| "greedy_nms nms boxes (i # rest) =
     i # greedy_nms nms boxes (filter (\<lambda>j. \<not> iou (boxes ! j) (boxes ! i) > nms) rest)"

text \<open>
  Modelled from the spec: \<open>applyNMS(boxes, scores, nms, conf, results)\<close>, missing from
  the source file.  Candidates are taken by descending score (equal scores in their
  order); a candidate whose score is below the floor \<open>conf\<close> takes no part (suppression
  is only evaluated among candidates that passed the confidence gate); the IoU
  threshold is the sole suppression criterion.  The result is the list of the accepted
  positions.
\<close>

definition applyNMS :: nms_fun where
  "applyNMS boxes scores nms conf =
     (let order = sort_desc (\<lambda>i. scores ! i) [0..<length boxes];
          candidates = filter (\<lambda>i. \<not> scores ! i < conf) order
      in greedy_nms nms boxes candidates)"

section \<open>The detection pipeline (\<open>detect\<close>, lines 651-727)\<close>

text \<open>The body of the loop of lines 671-676 on the state, \<open>indices\<close> and \<open>num_det\<close>.\<close>

definition nms_class_step ::
  "nms_fun \<Rightarrow> config \<Rightarrow> floats \<Rightarrow> floats \<Rightarrow> box_t list \<Rightarrow> (real \<times> nat) list list \<Rightarrow>
   nat \<Rightarrow> det_state \<times> nat list list \<times> nat \<Rightarrow> det_state \<times> nat list list \<times> nat" where
  "nms_class_step nmsf cfg loc_data mask_data prior_data score_index_vec c s =
     (case s of (st, indices, num_det) \<Rightarrow>
        (case apply_one_class_nms nmsf cfg loc_data mask_data prior_data c
                (score_index_vec ! c) st of
           (st', ind) \<Rightarrow> (st', indices[c := ind], num_det + length ind)))"

definition nms_all_classes ::
  "nms_fun \<Rightarrow> config \<Rightarrow> floats \<Rightarrow> floats \<Rightarrow> box_t list \<Rightarrow> (real \<times> nat) list list \<Rightarrow>
   det_state \<times> nat list list \<times> nat \<Rightarrow> det_state \<times> nat list list \<times> nat" where
  "nms_all_classes nmsf cfg loc_data mask_data prior_data score_index_vec =
     fold (nms_class_step nmsf cfg loc_data mask_data prior_data score_index_vec)
          [1..<NUM_CLASSES cfg]"

text \<open>Lines 680-690: the triples \<open>(score, label, idx)\<close> of all classes.\<close>

definition score_index_tuples :: "config \<Rightarrow> floats \<Rightarrow> nat list list \<Rightarrow> (real \<times> nat \<times> nat) list" where
  "score_index_tuples cfg conf_data indices =
     concat (map (\<lambda>label. map (\<lambda>idx. (conf_data (idx * NUM_CLASSES cfg + label), label, idx))
                               (indices ! label))
                 [0..<NUM_CLASSES cfg])"

text \<open>Lines 700-706: the kept triples are put back under their labels.\<close>

definition regroup :: "config \<Rightarrow> (real \<times> nat \<times> nat) list \<Rightarrow> nat list list" where
  "regroup cfg tuples =
     fold (\<lambda>item indices. indices[fst (snd item) := indices ! fst (snd item) @ [snd (snd item)]])
          tuples (replicate (NUM_CLASSES cfg) [])"

definition keep_top_k :: "config \<Rightarrow> floats \<Rightarrow> nat list list \<Rightarrow> nat \<Rightarrow> nat list list" where
  "keep_top_k cfg conf_data indices num_det =
     (if KEEP_TOP_K cfg > 0 \<and> num_det > KEEP_TOP_K cfg
      then regroup cfg (take (KEEP_TOP_K cfg)
                         (sort_desc fst (score_index_tuples cfg conf_data indices)))
      else indices)"

text \<open>
  Lines 709-726.  \<open>decoded_bboxes[idx]\<close> and \<open>masks[idx]\<close> are read from the maps; an
  absent key gives the empty vector.
\<close>

definition lookup_vec :: "(nat \<rightharpoonup> real list) \<Rightarrow> nat \<Rightarrow> real list" where
  "lookup_vec m idx = (case m idx of None \<Rightarrow> [] | Some v \<Rightarrow> v)"

definition make_box :: "config \<Rightarrow> floats \<Rightarrow> det_state \<Rightarrow> nat \<Rightarrow> nat \<Rightarrow> box_t" where
  "make_box cfg conf_data st label idx =
     (let score = conf_data (idx * NUM_CLASSES cfg + label);
          bbox = lookup_vec (decoded_bboxes st) idx
      in \<lparr>box_label = label, box_score = score,
          box_x = bbox ! 0 - 0.5 * bbox ! 2,
          box_y = bbox ! 1 - 0.5 * bbox ! 3,
          box_w = bbox ! 2,
          box_h = bbox ! 3\<rparr>)"

definition emit_results ::
  "config \<Rightarrow> floats \<Rightarrow> det_state \<Rightarrow> nat list list \<Rightarrow> (box_t \<times> real list) list" where
  "emit_results cfg conf_data st indices =
     concat (map (\<lambda>label. map (\<lambda>idx. (make_box cfg conf_data st label idx,
                                         lookup_vec (masks st) idx))
                               (indices ! label))
                 [1..<length indices])"

text \<open>
  Lines 660-676 of \<open>detect\<close>: the per-image maps are cleared (and the record of the
  decoding calls starts anew), every class from 1 on is ranked and suppressed.  The
  result is the state, \<open>indices\<close> and \<open>num_det\<close>.
\<close>

definition class_survivors ::
  "nms_fun \<Rightarrow> config \<Rightarrow> floats \<Rightarrow> floats \<Rightarrow> floats \<Rightarrow> box_t list \<Rightarrow> det_state \<Rightarrow>
   det_state \<times> nat list list \<times> nat" where
  "class_survivors nmsf cfg loc_data conf_data mask_data prior_data st =
     (let st0 = st\<lparr>decoded_bboxes := Map.empty, masks := Map.empty, decode_calls := []\<rparr>;
          score_index_vec =
            get_multi_class_max_score_index cfg conf_data 1 (NUM_CLASSES cfg - 1)
              (replicate (NUM_CLASSES cfg) [])
      in nms_all_classes nmsf cfg loc_data mask_data prior_data score_index_vec
           (st0, replicate (NUM_CLASSES cfg) [], 0))"

text \<open>
  \<open>detect\<close> appends to \<open>box_result\<close> and \<open>mask_result\<close>; \<open>proto_data\<close> is not used by
  it and is left out.  The result is the object state and the two vectors.
\<close>

definition detect ::
  "nms_fun \<Rightarrow> config \<Rightarrow> floats \<Rightarrow> floats \<Rightarrow> floats \<Rightarrow> box_t list \<Rightarrow>
   box_t list \<Rightarrow> real list list \<Rightarrow> det_state \<Rightarrow> det_state \<times> box_t list \<times> real list list" where
  "detect nmsf cfg loc_data conf_data mask_data prior_data box_result mask_result st =
     (let (st1, indices, num_det) =
            class_survivors nmsf cfg loc_data conf_data mask_data prior_data st;
          indices' = keep_top_k cfg conf_data indices num_det;
          out = emit_results cfg conf_data st1 indices'
      in (st1, box_result @ map fst out, mask_result @ map snd out))"

section \<open>Mask synthesis (\<open>sigmoid\<close>, lines 401-404; \<open>draw_masks\<close>, lines 424-436)\<close>




section \<open>Copying the output tensors (\<open>copy_data\<close>, \<open>postprocess\<close>, lines 729-877)\<close>









section \<open>Notions used in the statements\<close>


text \<open>The decoded box of prior \<open>idx\<close>: what \<open>decode_bbox\<close> stores for it.\<close>

definition dbox :: "box_t list \<Rightarrow> floats \<Rightarrow> nat \<Rightarrow> real list" where
  "dbox prior_data loc_data idx = decode_box (loc_at loc_data idx) (prior_data ! idx)"

text \<open>
  The invariant of the per-image maps: every stored box is the decoding of its index,
  its coefficients are stored with it, and the indices decoded are exactly the keys,
  each recorded once.
\<close>

definition cache_ok :: "config \<Rightarrow> floats \<Rightarrow> floats \<Rightarrow> box_t list \<Rightarrow> det_state \<Rightarrow> bool" where
  "cache_ok cfg loc_data mask_data prior_data st \<longleftrightarrow>
     (\<forall>idx. case decoded_bboxes st idx of
              None \<Rightarrow> masks st idx = None
            | Some b \<Rightarrow> idx < NUM_PRIORS cfg \<and> b = dbox prior_data loc_data idx \<and>
                        masks st idx = Some (mask_coeffs cfg mask_data idx)) \<and>
     distinct (decode_calls st) \<and> set (decode_calls st) = dom (decoded_bboxes st)"

text \<open>The positions kept by \<open>applyNMS\<close>, mapped to prior indices (lines 644-647).\<close>

definition kept_indices :: "nms_fun \<Rightarrow> config \<Rightarrow> floats \<Rightarrow> box_t list \<Rightarrow> (real \<times> nat) list \<Rightarrow> nat list" where
  "kept_indices nmsf cfg loc_data prior_data vec =
     map (\<lambda>r. if r < length vec then snd (vec ! r) else 0)
         (nmsf (map (\<lambda>e. dbox prior_data loc_data (snd e)) vec) (map fst vec)
               (NMS_THRESH cfg) (NMS_CONF_THRESH cfg))"

text \<open>The ranked candidates of class \<open>c\<close>, as \<open>detect\<close> computes them (line 668).\<close>

definition cands :: "config \<Rightarrow> floats \<Rightarrow> nat \<Rightarrow> (real \<times> nat) list" where
  "cands cfg conf_data c = get_one_class_max_score_index cfg conf_data c []"

text \<open>Greedy suppression on the entries themselves.\<close>

fun greedy_keep :: "('a \<Rightarrow> 'a \<Rightarrow> bool) \<Rightarrow> 'a list \<Rightarrow> 'a list" where
  "greedy_keep ovl [] = []"
| "greedy_keep ovl (x # xs) = x # greedy_keep ovl (filter (\<lambda>y. \<not> ovl y x) xs)"

text \<open>Entry \<open>y\<close> is suppressed by the accepted entry \<open>x\<close>.\<close>

definition overlaps :: "config \<Rightarrow> box_t list \<Rightarrow> floats \<Rightarrow> real \<times> nat \<Rightarrow> real \<times> nat \<Rightarrow> bool" where
  "overlaps cfg prior_data loc_data y x \<longleftrightarrow>
     iou (dbox prior_data loc_data (snd y)) (dbox prior_data loc_data (snd x)) > NMS_THRESH cfg"

text \<open>The entries of class \<open>c\<close> that survive the suppression.\<close>

definition survivors :: "config \<Rightarrow> floats \<Rightarrow> floats \<Rightarrow> box_t list \<Rightarrow> nat \<Rightarrow> (real \<times> nat) list" where
  "survivors cfg loc_data conf_data prior_data c =
     greedy_keep (overlaps cfg prior_data loc_data) (cands cfg conf_data c)"

text \<open>The detection emitted for prior \<open>idx\<close> under class \<open>c\<close> (lines 713-722).\<close>

definition pure_box :: "config \<Rightarrow> floats \<Rightarrow> box_t list \<Rightarrow> floats \<Rightarrow> nat \<Rightarrow> nat \<Rightarrow> box_t" where
  "pure_box cfg conf_data prior_data loc_data c idx =
     \<lparr>box_label = c, box_score = conf_data (idx * NUM_CLASSES cfg + c),
      box_x = dbox prior_data loc_data idx ! 0 - 0.5 * dbox prior_data loc_data idx ! 2,
      box_y = dbox prior_data loc_data idx ! 1 - 0.5 * dbox prior_data loc_data idx ! 3,
      box_w = dbox prior_data loc_data idx ! 2,
      box_h = dbox prior_data loc_data idx ! 3\<rparr>"

text \<open>An input with a single confidence above the threshold: prior 0, class 3.\<close>

definition conf_one :: floats where
  "conf_one = (\<lambda>k. if k = 3 then 0.9 else 0)"

text \<open>Confidences with two, and with three, candidates of class 1 in row 30 of level 0:
  priors 6300, 6303 and 6309 (columns 30, 31 and 33, first aspect ratio).\<close>

definition conf_pair :: floats where
  "conf_pair = (\<lambda>k. if k = 510301 then 0.95 else if k = 510544 then 0.9 else 0)"

definition conf_three :: floats where
  "conf_three = (\<lambda>k. if k = 510301 then 0.95 else if k = 510544 then 0.9
                       else if k = 511030 then 0.8 else 0)"



text \<open>Concrete inputs: the priors of \<open>create_priors\<close>, an empty state, and a state whose
  cache already holds prior 7.\<close>

definition prior_ref :: "box_t list" where
  "prior_ref = create_priors \<lparr>box_label = 0, box_score = 0, box_x = 0, box_y = 0, box_w = 0, box_h = 0\<rparr>"

definition st_empty :: det_state where
  "st_empty = \<lparr>decoded_bboxes = Map.empty, masks = Map.empty, decode_calls = []\<rparr>"

definition st_cached :: det_state where
  "st_cached = \<lparr>decoded_bboxes = [7 \<mapsto> [0.5, 0.5, 0.25, 0.25]], masks = [7 \<mapsto> [1]],
                 decode_calls = [7]\<rparr>"



section \<open>Counting and labels of the output\<close>

lemma length_regroup_aux:
  "length (fold (\<lambda>item indices. indices[fst (snd item) := indices ! fst (snd item) @ [snd (snd item)]]) ts ind) = length ind"
  by (induction ts arbitrary: ind) auto

lemma length_regroup: "length (regroup cfg ts) = NUM_CLASSES cfg"
  by (simp add: regroup_def length_regroup_aux)

lemma sum_lengths_update:
  "l < length ind \<Longrightarrow> sum_list (map length (ind[l := ind ! l @ [a]])) = Suc (sum_list (map length ind))"
  by (induction ind arbitrary: l) (auto split: nat.splits)

lemma regroup_aux_total:
  "sum_list (map length (fold (\<lambda>item indices. indices[fst (snd item) := indices ! fst (snd item) @ [snd (snd item)]]) ts ind))
     \<le> sum_list (map length ind) + length ts"
proof (induction ts arbitrary: ind)
  case Nil show ?case by simp
next
  case (Cons t ts)
  let ?ind1 = "ind[fst (snd t) := ind ! fst (snd t) @ [snd (snd t)]]"
  have "sum_list (map length ?ind1) \<le> Suc (sum_list (map length ind))"
  proof (cases "fst (snd t) < length ind")
    case True then show ?thesis by (simp add: sum_lengths_update)
  next
    case False then show ?thesis by (simp add: list_update_beyond)
  qed
  with Cons.IH[of ?ind1] show ?case by simp
qed

lemma regroup_total: "sum_list (map length (regroup cfg ts)) \<le> length ts"
proof -
  have "sum_list (map length (replicate (NUM_CLASSES cfg) ([]::nat list))) = 0"
    by (induction "NUM_CLASSES cfg") auto
  then show ?thesis
    using regroup_aux_total[of ts "replicate (NUM_CLASSES cfg) []"]
    unfolding regroup_def by linarith
qed

lemma length_emit_results:
  "length (emit_results cfg conf st ind) = sum_list (map (\<lambda>l. length (ind ! l)) [1..<length ind])"
  by (simp add: emit_results_def length_concat comp_def)

lemma sum_from_one_le:
  "sum_list (map (\<lambda>l. length (ind ! l)) [1..<length ind]) \<le> sum_list (map length ind)"
proof (cases ind)
  case Nil then show ?thesis by simp
next
  case (Cons a as)
  have "map (\<lambda>l. length (ind ! l)) [0..<length ind] = map length ind"
    by (rule nth_equalityI) auto
  moreover have "0 < length ind" using Cons by simp
  then have "[0..<length ind] = 0 # [Suc 0..<length ind]" by (rule upt_conv_Cons)
  then have "[0..<length ind] = 0 # [1..<length ind]" by simp
  ultimately have "map length ind = length (ind ! 0) # map (\<lambda>l. length (ind ! l)) [1..<length ind]"
    by (metis list.simps(9))
  then show ?thesis by simp
qed

lemma fold_class_step_inv:
  assumes "distinct cs" and "\<forall>c\<in>set cs. c < length ind0"
    and "fold (nms_class_step nmsf cfg loc mk pr siv) cs (st0, ind0, n0) = (st, ind, n)"
  shows "length ind = length ind0 \<and>
         n = n0 + sum_list (map (\<lambda>c. length (ind ! c)) cs) \<and>
         (\<forall>c. c \<notin> set cs \<longrightarrow> ind ! c = ind0 ! c)"
  using assms
proof (induction cs arbitrary: st ind n rule: rev_induct)
  case Nil
  then show ?case by simp
next
  case (snoc c cs)
  obtain st1 ind1 n1 where f1: "fold (nms_class_step nmsf cfg loc mk pr siv) cs (st0, ind0, n0) = (st1, ind1, n1)"
    by (metis prod_cases3)
  from snoc.prems have d: "distinct cs" "c \<notin> set cs" and b: "\<forall>c\<in>set cs. c < length ind0" "c < length ind0"
    by auto
  from snoc.IH[OF d(1) b(1) f1]
  have ih: "length ind1 = length ind0" "n1 = n0 + sum_list (map (\<lambda>c. length (ind1 ! c)) cs)"
    "\<forall>c. c \<notin> set cs \<longrightarrow> ind1 ! c = ind0 ! c" by auto
  obtain st2 r where a: "apply_one_class_nms nmsf cfg loc mk pr c (siv ! c) st1 = (st2, r)"
    by (cases "apply_one_class_nms nmsf cfg loc mk pr c (siv ! c) st1")
  from snoc.prems(3) f1 have "nms_class_step nmsf cfg loc mk pr siv c (st1, ind1, n1) = (st, ind, n)"
    by simp
  with a have e: "st = st2" "ind = ind1[c := r]" "n = n1 + length r"
    by (auto simp: nms_class_step_def)
  have same: "map (\<lambda>c. length (ind ! c)) cs = map (\<lambda>c. length (ind1 ! c)) cs"
  proof (rule map_cong[OF refl])
    fix x assume "x \<in> set cs"
    with d(2) have "x \<noteq> c" by auto
    then show "length (ind ! x) = length (ind1 ! x)" using e(2) by simp
  qed
  have r: "ind ! c = r" using e(2) b(2) ih(1) by simp
  have 1: "length ind = length ind0" using e(2) ih(1) by simp
  have "sum_list (map (\<lambda>c. length (ind ! c)) (cs @ [c])) =
        sum_list (map (\<lambda>c. length (ind1 ! c)) cs) + length r"
    using arg_cong[OF same, of sum_list] r by simp
  then have 2: "n = n0 + sum_list (map (\<lambda>c. length (ind ! c)) (cs @ [c]))"
    using e(3) ih(2) by simp
  have 3: "\<forall>x. x \<notin> set (cs @ [c]) \<longrightarrow> ind ! x = ind0 ! x"
    using e(2) ih(3) by simp
  from 1 2 3 show ?case by blast
qed

lemma class_survivors_shape:
  assumes "class_survivors nmsf cfg loc conf mk pr st = (st1, indices, num_det)"
  shows "length indices = NUM_CLASSES cfg"
    and "num_det = sum_list (map (\<lambda>c. length (indices ! c)) [1..<NUM_CLASSES cfg])"
proof -
  have "length indices = length (replicate (NUM_CLASSES cfg) ([]::nat list)) \<and>
        num_det = 0 + sum_list (map (\<lambda>c. length (indices ! c)) [1..<NUM_CLASSES cfg]) \<and>
        (\<forall>c. c \<notin> set [1..<NUM_CLASSES cfg] \<longrightarrow> indices ! c = replicate (NUM_CLASSES cfg) [] ! c)"
    by (rule fold_class_step_inv[where nmsf=nmsf and cfg=cfg and loc=loc and mk=mk and pr=pr and st=st1])
       (use assms in \<open>auto simp: class_survivors_def nms_all_classes_def Let_def\<close>)
  then show "length indices = NUM_CLASSES cfg"
    and "num_det = sum_list (map (\<lambda>c. length (indices ! c)) [1..<NUM_CLASSES cfg])" by auto
qed



lemma emit_results_fst:
  "map fst (emit_results cfg conf st ind) =
   concat (map (\<lambda>c. map (make_box cfg conf st c) (ind ! c)) [1..<length ind])"
  by (simp add: emit_results_def map_concat comp_def)

lemma emit_results_snd:
  "map snd (emit_results cfg conf st ind) =
   concat (map (\<lambda>c. map (\<lambda>idx. lookup_vec (masks st) idx) (ind ! c)) [1..<length ind])"
  by (simp add: emit_results_def map_concat comp_def)

text \<open>
  Claim C3.  With \<open>num_det\<close> the total number of per-class survivors of the
  suppression (the sum of the sizes of \<open>indices[c]\<close> over the classes from 1 on): the
  number of detections is at most the global cap \<open>KEEP_TOP_K\<close> (the guard of line 678
  asks for a positive cap; the source has 15) and at most \<open>num_det\<close>; and when
  \<open>num_det\<close> is within the cap, the output is exactly the survivors, class by class
  in their order, nothing dropped or reordered.
\<close>

theorem detect_global_cap:
  "case class_survivors nmsf cfg loc_data conf_data mask_data prior_data st of
     (st1, indices, num_det) \<Rightarrow>
       (case detect nmsf cfg loc_data conf_data mask_data prior_data [] [] st of
          (st2, boxes, mask_vecs) \<Rightarrow>
            num_det = sum_list (map (\<lambda>c. length (indices ! c)) [1..<NUM_CLASSES cfg]) \<and>
            (0 < KEEP_TOP_K cfg \<longrightarrow> length boxes \<le> KEEP_TOP_K cfg) \<and>
            length boxes \<le> num_det \<and>
            length mask_vecs = length boxes \<and>
            (num_det \<le> KEEP_TOP_K cfg \<longrightarrow>
               boxes = concat (map (\<lambda>c. map (make_box cfg conf_data st1 c) (indices ! c))
                                   [1..<NUM_CLASSES cfg]) \<and>
               mask_vecs = concat (map (\<lambda>c. map (lookup_vec (masks st1)) (indices ! c))
                                       [1..<NUM_CLASSES cfg])))"
proof -
  obtain st1 indices num_det where
    cs: "class_survivors nmsf cfg loc_data conf_data mask_data prior_data st = (st1, indices, num_det)"
    by (metis prod_cases3)
  note shape = class_survivors_shape[OF cs]
  define ind' where "ind' = keep_top_k cfg conf_data indices num_det"
  define out where "out = emit_results cfg conf_data st1 ind'"
  have det: "detect nmsf cfg loc_data conf_data mask_data prior_data [] [] st =
             (st1, map fst out, map snd out)"
    by (simp add: detect_def cs Let_def out_def ind'_def)
  have len_out: "length out = sum_list (map (\<lambda>l. length (ind' ! l)) [1..<length ind'])"
    by (simp add: out_def length_emit_results)
  have le_det: "length out \<le> num_det" and cap: "0 < KEEP_TOP_K cfg \<longrightarrow> length out \<le> KEEP_TOP_K cfg"
  proof -
    show "length out \<le> num_det"
    proof (cases "KEEP_TOP_K cfg > 0 \<and> num_det > KEEP_TOP_K cfg")
      case True
      then have "ind' = regroup cfg (take (KEEP_TOP_K cfg)
                         (sort_desc fst (score_index_tuples cfg conf_data indices)))"
        by (simp add: ind'_def keep_top_k_def)
      then have "sum_list (map length ind') \<le> KEEP_TOP_K cfg"
        using regroup_total[of cfg "take (KEEP_TOP_K cfg)
                         (sort_desc fst (score_index_tuples cfg conf_data indices))"]
        by simp
      with sum_from_one_le[of ind'] len_out True show ?thesis by linarith
    next
      case False
      then have "ind' = indices" unfolding ind'_def keep_top_k_def by (simp only: if_False)
      with len_out shape show ?thesis by simp
    qed
    show "0 < KEEP_TOP_K cfg \<longrightarrow> length out \<le> KEEP_TOP_K cfg"
    proof (cases "KEEP_TOP_K cfg > 0 \<and> num_det > KEEP_TOP_K cfg")
      case True
      then have "ind' = regroup cfg (take (KEEP_TOP_K cfg)
                         (sort_desc fst (score_index_tuples cfg conf_data indices)))"
        by (simp add: ind'_def keep_top_k_def)
      then have "sum_list (map length ind') \<le> KEEP_TOP_K cfg"
        using regroup_total[of cfg "take (KEEP_TOP_K cfg)
                         (sort_desc fst (score_index_tuples cfg conf_data indices))"]
        by simp
      with sum_from_one_le[of ind'] len_out show ?thesis by linarith
    next
      case False
      then have "ind' = indices" unfolding ind'_def keep_top_k_def by (simp only: if_False)
      with len_out shape False show ?thesis by auto
    qed
  qed
  have within: "num_det \<le> KEEP_TOP_K cfg \<longrightarrow> ind' = indices"
    by (simp add: ind'_def keep_top_k_def)
  have "num_det \<le> KEEP_TOP_K cfg \<longrightarrow>
          map fst out = concat (map (\<lambda>c. map (make_box cfg conf_data st1 c) (indices ! c))
                                   [1..<NUM_CLASSES cfg]) \<and>
          map snd out = concat (map (\<lambda>c. map (lookup_vec (masks st1)) (indices ! c))
                                       [1..<NUM_CLASSES cfg])"
    using within shape(1) by (auto simp: out_def emit_results_fst emit_results_snd)
  with le_det cap shape(2) show ?thesis
    by (simp add: cs det)
qed

section \<open>The layout of the priors\<close>

lemma nth_concat_offset:
  "k < length xss \<Longrightarrow> off < length (xss ! k) \<Longrightarrow>
   concat xss ! (sum_list (map length (take k xss)) + off) = xss ! k ! off"
proof (induction xss arbitrary: k)
  case Nil
  then show ?case by simp
next
  case (Cons xs xss)
  show ?case
  proof (cases k)
    case 0
    with Cons.prems show ?thesis by (simp add: nth_append)
  next
    case (Suc k')
    with Cons.prems have "k' < length xss" "off < length (xss ! k')" by simp_all
    from Cons.IH[OF this] Suc show ?thesis by (simp add: nth_append)
  qed
qed

lemma sum_list_const_upt:
  "(\<And>i. i < n \<Longrightarrow> f i = (m::nat)) \<Longrightarrow> sum_list (map f [0..<n]) = n * m"
  by (induction n) auto

lemma nth_concat_uniform:
  assumes "\<And>i. i < n \<Longrightarrow> length (f i) = m" and "i < n" and "r < m"
  shows "concat (map f [0..<n]) ! (i * m + r) = f i ! r"
proof -
  have "sum_list (map length (take i (map f [0..<n]))) = i * m"
  proof -
    have "take i (map f [0..<n]) = map f [0..<i]"
      using assms(2) by (simp add: take_map)
    then show ?thesis using assms(1,2) by (simp add: comp_def sum_list_const_upt)
  qed
  moreover have "i < length (map f [0..<n])" "r < length (map f [0..<n] ! i)"
    using assms by simp_all
  ultimately show ?thesis
    using nth_concat_offset[of i "map f [0..<n]" r] assms(2) by simp
qed

lemma length_concat_uniform:
  assumes "\<And>i. i < n \<Longrightarrow> length (f i) = m"
  shows "length (concat (map f [0..<n])) = n * m"
  using assms by (simp add: length_concat comp_def sum_list_const_upt)

lemma length_prior_cell [simp]: "length (prior_cell pb k j i) = 3"
  by (simp add: prior_cell_def Let_def)

lemma length_prior_row:
  "length (concat (map (\<lambda>i. prior_cell pb k j i) [0..<F])) = F * 3"
  by (rule length_concat_uniform) simp

lemma length_prior_level: "length (prior_level pb k) = fmap_dims ! k * (fmap_dims ! k * 3)"
  unfolding prior_level_def by (rule length_concat_uniform) (rule length_prior_row)

lemma prior_level_nth:
  assumes "j < fmap_dims ! k" and "i < fmap_dims ! k" and "r < 3"
  shows "prior_level pb k ! ((j * fmap_dims ! k + i) * 3 + r) = prior_cell pb k j i ! r"
proof -
  let ?F = "fmap_dims ! k"
  let ?row = "\<lambda>j. concat (map (\<lambda>i. prior_cell pb k j i) [0..<?F])"
  have ir: "i * 3 + r < ?F * 3" using assms(2,3) by simp
  have "prior_level pb k ! (j * (?F * 3) + (i * 3 + r)) = ?row j ! (i * 3 + r)"
    unfolding prior_level_def
    by (rule nth_concat_uniform[OF _ assms(1) ir]) (rule length_prior_row)
  also have "\<dots> = prior_cell pb k j i ! r"
    by (rule nth_concat_uniform[OF _ assms(2,3)]) simp
  finally show ?thesis by (simp add: algebra_simps)
qed

lemma fmap_dims_nth [simp]:
  "fmap_dims ! 0 = 69" "fmap_dims ! Suc 0 = 35" "fmap_dims ! 2 = 18" "fmap_dims ! 3 = 9" "fmap_dims ! 4 = 5"
  by (simp_all add: fmap_dims_def)

lemma level_cases: "k < 5 \<Longrightarrow> k = 0 \<or> k = 1 \<or> k = 2 \<or> k = 3 \<or> k = (4::nat)"
  by arith

lemma level_base_eq:
  assumes "k < 5"
  shows "level_base k = sum_list (map length (take k (map (prior_level pb) [0..<5])))"
proof -
  have u: "[0..<5] = [0, 1, 2, 3, 4::nat]" by (simp add: upt_rec)
  from level_cases[OF assms] show ?thesis
    by (auto simp: level_base_def u length_prior_level fmap_dims_def take_Cons')
qed

lemma create_priors_nth:
  assumes "k < 5" and "j < fmap_dims ! k" and "i < fmap_dims ! k" and "r < 3"
  shows "create_priors pb ! (level_base k + (j * fmap_dims ! k + i) * 3 + r) = prior_cell pb k j i ! r"
proof -
  let ?off = "(j * fmap_dims ! k + i) * 3 + r"
  have "j * fmap_dims ! k + i < fmap_dims ! k * fmap_dims ! k"
  proof -
    have "j * fmap_dims ! k + i < (j + 1) * fmap_dims ! k" using assms(3) by simp
    also have "\<dots> \<le> fmap_dims ! k * fmap_dims ! k" using assms(2) by (simp add: mult_le_mono1 Suc_leI del: mult_Suc)
    finally show ?thesis .
  qed
  then have off: "?off < length (prior_level pb k)"
    using assms(4) by (simp add: length_prior_level)
  have "create_priors pb ! (level_base k + ?off) = map (prior_level pb) [0..<5] ! k ! ?off"
    unfolding create_priors_def level_base_eq[OF assms(1), of pb]
    by (rule nth_concat_offset) (use assms(1) off in simp_all)
  also have "\<dots> = prior_level pb k ! ?off" using assms(1) by simp
  also have "\<dots> = prior_cell pb k j i ! r" by (rule prior_level_nth[OF assms(2,3,4)])
  finally show ?thesis by (simp add: add.assoc)
qed

lemma length_create_priors: "length (create_priors pb) = 19248"
proof -
  have u: "[0..<5] = [0, 1, 2, 3, 4::nat]" by (simp add: upt_rec)
  show ?thesis
    by (simp add: create_priors_def u length_prior_level fmap_dims_def)
qed

text \<open>
  Claim C8.  \<open>create_priors\<close> writes exactly 19248 boxes, the sum over the five levels
  of \<open>F * F * 3\<close> for the sides 69, 35, 18, 9, 5 and the three aspect ratios.  In the
  order level, row \<open>j\<close>, column \<open>i\<close>, ratio \<open>r\<close>, the box at that place has the centre
  \<open>((i + 0.5) / F, (j + 0.5) / F)\<close> and width and height both \<open>S * ratio / 550\<close>.
\<close>

theorem create_priors_layout:
  "length (create_priors pb) = 19248 \<and>
   (\<Sum>k<5. fmap_dims ! k * fmap_dims ! k * 3) = 19248 \<and>
   (\<forall>k<5. \<forall>j<fmap_dims ! k. \<forall>i<fmap_dims ! k. \<forall>r<3.
      let b = create_priors pb ! (level_base k + (j * fmap_dims ! k + i) * 3 + r)
      in box_x b = (real i + 0.5) / real (fmap_dims ! k) \<and>
         box_y b = (real j + 0.5) / real (fmap_dims ! k) \<and>
         box_w b = real (scales ! k) * ([1, 0.5, 2] ! r) / 550 \<and>
         box_h b = real (scales ! k) * ([1, 0.5, 2] ! r) / 550)"
proof -
  have s: "(\<Sum>k<5. fmap_dims ! k * fmap_dims ! k * 3) = (19248::nat)"
    by (simp add: fmap_dims_def lessThan_nat_numeral lessThan_Suc)
  have a: "aspect_ratios ! k ! r = [1, 0.5, 2] ! r" if "k < 5" for k r
    using level_cases[OF that] by (auto simp: aspect_ratios_def)
  have "box_x (create_priors pb ! (level_base k + (j * fmap_dims ! k + i) * 3 + r)) =
          (real i + 0.5) / real (fmap_dims ! k) \<and>
        box_y (create_priors pb ! (level_base k + (j * fmap_dims ! k + i) * 3 + r)) =
          (real j + 0.5) / real (fmap_dims ! k) \<and>
        box_w (create_priors pb ! (level_base k + (j * fmap_dims ! k + i) * 3 + r)) =
          real (scales ! k) * ([1, 0.5, 2] ! r) / 550 \<and>
        box_h (create_priors pb ! (level_base k + (j * fmap_dims ! k + i) * 3 + r)) =
          real (scales ! k) * ([1, 0.5, 2] ! r) / 550"
    if "k < 5" "j < fmap_dims ! k" "i < fmap_dims ! k" "r < 3" for k j i r
    unfolding create_priors_nth[OF that]
    using that(4) a[OF that(1)] by (simp add: prior_cell_def Let_def max_size_def)
  with s length_create_priors show ?thesis unfolding Let_def by blast
qed

section \<open>The decoded box\<close>




section \<open>The cache of decoded boxes\<close>

lemma ensure_decoded_hit:
  "decoded_bboxes st idx = Some b \<Longrightarrow> ensure_decoded cfg loc mk pr idx (st, m) = (st, m)"
  by (simp add: ensure_decoded_def)

lemma ensure_decoded_miss:
  "decoded_bboxes st idx = None \<Longrightarrow> idx < NUM_PRIORS cfg \<Longrightarrow>
   ensure_decoded cfg loc mk pr idx (st, m) =
     (st\<lparr>decoded_bboxes := (decoded_bboxes st)(idx \<mapsto> dbox pr loc idx),
         masks := emplace idx (m @ mask_coeffs cfg mk idx) (masks st),
         decode_calls := decode_calls st @ [idx]\<rparr>, [])"
  by (simp add: ensure_decoded_def decode_bbox_def emplace_def dbox_def)

lemma ensure_decoded_out:
  "decoded_bboxes st idx = None \<Longrightarrow> \<not> idx < NUM_PRIORS cfg \<Longrightarrow>
   ensure_decoded cfg loc mk pr idx (st, m) = (st, m)"
  by (simp add: ensure_decoded_def)

lemma index_bbox_hit:
  "decoded_bboxes st idx = Some b \<Longrightarrow> index_bbox st idx = (b, st)"
  by (simp add: index_bbox_def)

text \<open>One visit under the cache invariant.\<close>

lemma nms_visit_ok:
  assumes ok: "cache_ok cfg loc mk pr (nv_state v)" and m: "nv_mask v = []"
    and lt: "snd e < NUM_PRIORS cfg"
  shows "\<exists>st'. nms_visit cfg loc mk pr e v =
            \<lparr>nv_state = st', nv_mask = [], nv_boxes = nv_boxes v @ [dbox pr loc (snd e)],
             nv_scores = nv_scores v @ [fst e],
             nv_resultmap = (nv_resultmap v)(nv_i v \<mapsto> snd e), nv_i = nv_i v + 1\<rparr> \<and>
           cache_ok cfg loc mk pr st' \<and>
           dom (decoded_bboxes st') = insert (snd e) (dom (decoded_bboxes (nv_state v)))"
proof (cases "decoded_bboxes (nv_state v) (snd e)")
  case None
  let ?st = "nv_state v" and ?idx = "snd e"
  from ok None have mn: "masks ?st ?idx = None"
    by (auto simp: cache_ok_def split: option.splits dest: spec[of _ "snd e"])
  let ?st1 = "?st\<lparr>decoded_bboxes := (decoded_bboxes ?st)(?idx \<mapsto> dbox pr loc ?idx),
       masks := (masks ?st)(?idx \<mapsto> mask_coeffs cfg mk ?idx),
       decode_calls := decode_calls ?st @ [?idx]\<rparr>"
  have ed: "ensure_decoded cfg loc mk pr ?idx (?st, nv_mask v) = (?st1, [])"
    using ensure_decoded_miss[OF None lt, of loc mk pr "nv_mask v"] m mn
    by (simp add: emplace_def)
  have ib: "index_bbox ?st1 ?idx = (dbox pr loc ?idx, ?st1)"
    by (simp add: index_bbox_def)
  have nv: "nms_visit cfg loc mk pr e v =
      \<lparr>nv_state = ?st1, nv_mask = [], nv_boxes = nv_boxes v @ [dbox pr loc ?idx],
       nv_scores = nv_scores v @ [fst e],
       nv_resultmap = (nv_resultmap v)(nv_i v \<mapsto> ?idx), nv_i = nv_i v + 1\<rparr>"
    by (simp add: nms_visit_def ed ib)
  have ok1: "cache_ok cfg loc mk pr ?st1"
    using ok None lt unfolding cache_ok_def
    by (auto split: option.splits)
  have "dom (decoded_bboxes ?st1) = insert ?idx (dom (decoded_bboxes ?st))" by simp
  with nv ok1 show ?thesis by blast
next
  case (Some b)
  let ?st = "nv_state v" and ?idx = "snd e"
  from ok Some have b: "b = dbox pr loc ?idx"
    by (auto simp: cache_ok_def split: option.splits dest: spec[of _ "snd e"])
  have ed: "ensure_decoded cfg loc mk pr ?idx (?st, nv_mask v) = (?st, [])"
    using ensure_decoded_hit[OF Some] m by simp
  have ib: "index_bbox ?st ?idx = (dbox pr loc ?idx, ?st)"
    using index_bbox_hit[OF Some] b by simp
  have nv: "nms_visit cfg loc mk pr e v =
      \<lparr>nv_state = ?st, nv_mask = [], nv_boxes = nv_boxes v @ [dbox pr loc ?idx],
       nv_scores = nv_scores v @ [fst e],
       nv_resultmap = (nv_resultmap v)(nv_i v \<mapsto> ?idx), nv_i = nv_i v + 1\<rparr>"
    by (simp add: nms_visit_def ed ib)
  have "dom (decoded_bboxes ?st) = insert ?idx (dom (decoded_bboxes ?st))"
    using Some by auto
  with nv ok show ?thesis by blast
qed

lemma nms_gather_ok:
  assumes "cache_ok cfg loc mk pr (nv_state v)" and "nv_mask v = []"
    and "\<forall>e\<in>set vec. snd e < NUM_PRIORS cfg"
  shows "\<exists>st'. fold (nms_visit cfg loc mk pr) vec v =
            \<lparr>nv_state = st', nv_mask = [],
             nv_boxes = nv_boxes v @ map (\<lambda>e. dbox pr loc (snd e)) vec,
             nv_scores = nv_scores v @ map fst vec,
             nv_resultmap = (\<lambda>r. if nv_i v \<le> r \<and> r < nv_i v + length vec
                                  then Some (snd (vec ! (r - nv_i v))) else nv_resultmap v r),
             nv_i = nv_i v + length vec\<rparr> \<and>
           cache_ok cfg loc mk pr st' \<and>
           dom (decoded_bboxes st') = snd ` set vec \<union> dom (decoded_bboxes (nv_state v))"
  using assms
proof (induction vec arbitrary: v)
  case Nil
  then show ?case by (cases v) (auto simp: fun_eq_iff)
next
  case (Cons e vec)
  from Cons.prems have lt: "snd e < NUM_PRIORS cfg" and rest: "\<forall>e\<in>set vec. snd e < NUM_PRIORS cfg"
    by auto
  from nms_visit_ok[OF Cons.prems(1,2) lt] obtain st1 where
    v1: "nms_visit cfg loc mk pr e v =
            \<lparr>nv_state = st1, nv_mask = [], nv_boxes = nv_boxes v @ [dbox pr loc (snd e)],
             nv_scores = nv_scores v @ [fst e],
             nv_resultmap = (nv_resultmap v)(nv_i v \<mapsto> snd e), nv_i = nv_i v + 1\<rparr>"
    and ok1: "cache_ok cfg loc mk pr st1"
    and dom1: "dom (decoded_bboxes st1) = insert (snd e) (dom (decoded_bboxes (nv_state v)))"
    by blast
  let ?v1 = "nms_visit cfg loc mk pr e v"
  have p1: "cache_ok cfg loc mk pr (nv_state ?v1)" "nv_mask ?v1 = []"
    using ok1 by (simp_all add: v1)
  from Cons.IH[OF p1 rest] obtain st' where
    f: "fold (nms_visit cfg loc mk pr) vec ?v1 =
            \<lparr>nv_state = st', nv_mask = [],
             nv_boxes = nv_boxes ?v1 @ map (\<lambda>e. dbox pr loc (snd e)) vec,
             nv_scores = nv_scores ?v1 @ map fst vec,
             nv_resultmap = (\<lambda>r. if nv_i ?v1 \<le> r \<and> r < nv_i ?v1 + length vec
                                  then Some (snd (vec ! (r - nv_i ?v1))) else nv_resultmap ?v1 r),
             nv_i = nv_i ?v1 + length vec\<rparr>"
    and ok': "cache_ok cfg loc mk pr st'"
    and dom': "dom (decoded_bboxes st') = snd ` set vec \<union> dom (decoded_bboxes (nv_state ?v1))"
    by blast
  have rm: "(\<lambda>r. if nv_i ?v1 \<le> r \<and> r < nv_i ?v1 + length vec
                                  then Some (snd (vec ! (r - nv_i ?v1))) else nv_resultmap ?v1 r) =
            (\<lambda>r. if nv_i v \<le> r \<and> r < nv_i v + length (e # vec)
                                  then Some (snd ((e # vec) ! (r - nv_i v))) else nv_resultmap v r)"
  proof (rule ext)
    fix r
    show "(if nv_i ?v1 \<le> r \<and> r < nv_i ?v1 + length vec
                                  then Some (snd (vec ! (r - nv_i ?v1))) else nv_resultmap ?v1 r) =
          (if nv_i v \<le> r \<and> r < nv_i v + length (e # vec)
                                  then Some (snd ((e # vec) ! (r - nv_i v))) else nv_resultmap v r)"
    proof (cases "r = nv_i v")
      case True
      then show ?thesis by (simp add: v1)
    next
      case False
      show ?thesis
      proof (cases "nv_i v < r")
        case True
        then have "(e # vec) ! (r - nv_i v) = vec ! (r - Suc (nv_i v))"
          by (simp add: nth_Cons')
        with True show ?thesis by (auto simp: v1)
      next
        case lt: False
        with False have "r < nv_i v" by simp
        then show ?thesis by (simp add: v1)
      qed
    qed
  qed
  have "fold (nms_visit cfg loc mk pr) (e # vec) v =
            \<lparr>nv_state = st', nv_mask = [],
             nv_boxes = nv_boxes v @ map (\<lambda>e. dbox pr loc (snd e)) (e # vec),
             nv_scores = nv_scores v @ map fst (e # vec),
             nv_resultmap = (\<lambda>r. if nv_i v \<le> r \<and> r < nv_i v + length (e # vec)
                                  then Some (snd ((e # vec) ! (r - nv_i v))) else nv_resultmap v r),
             nv_i = nv_i v + length (e # vec)\<rparr>"
    using f unfolding rm by (simp add: v1)
  moreover have "dom (decoded_bboxes st') = snd ` set (e # vec) \<union> dom (decoded_bboxes (nv_state v))"
    using dom' dom1 by (auto simp: v1)
  ultimately show ?case using ok' by blast
qed

lemma apply_one_class_nms_ok:
  assumes "cache_ok cfg loc mk pr st" and "\<forall>e\<in>set vec. snd e < NUM_PRIORS cfg"
  shows "\<exists>st'. apply_one_class_nms nmsf cfg loc mk pr c vec st =
               (st', kept_indices nmsf cfg loc pr vec) \<and>
             cache_ok cfg loc mk pr st' \<and>
             dom (decoded_bboxes st') = snd ` set vec \<union> dom (decoded_bboxes st)"
proof -
  let ?v0 = "\<lparr>nv_state = st, nv_mask = [], nv_boxes = [], nv_scores = [],
                 nv_resultmap = Map.empty, nv_i = 0\<rparr>"
  have "cache_ok cfg loc mk pr (nv_state ?v0)" "nv_mask ?v0 = []" using assms(1) by simp_all
  from nms_gather_ok[OF this assms(2)] obtain st' where
    f: "fold (nms_visit cfg loc mk pr) vec ?v0 =
            \<lparr>nv_state = st', nv_mask = [],
             nv_boxes = map (\<lambda>e. dbox pr loc (snd e)) vec,
             nv_scores = map fst vec,
             nv_resultmap = (\<lambda>r. if r < length vec then Some (snd (vec ! r)) else None),
             nv_i = length vec\<rparr>"
    and ok': "cache_ok cfg loc mk pr st'"
    and dom': "dom (decoded_bboxes st') = snd ` set vec \<union> dom (decoded_bboxes st)"
    by (auto cong: if_cong)
  have "apply_one_class_nms nmsf cfg loc mk pr c vec st = (st', kept_indices nmsf cfg loc pr vec)"
    by (simp add: apply_one_class_nms_def f kept_indices_def Let_def)
  with ok' dom' show ?thesis by blast
qed

lemma set_sort_desc [simp]: "set (sort_desc f xs) = set xs"
  by (simp add: sort_desc_def)

lemma length_sort_desc [simp]: "length (sort_desc f xs) = length xs"
  by (simp add: sort_desc_def)

lemma cands_eq:
  "cands cfg conf c =
     take (NMS_TOP_K cfg) (sort_desc fst (filter (\<lambda>p. fst p > NMS_CONF_THRESH cfg)
        (map (\<lambda>i. (conf (c + i * NUM_CLASSES cfg), i)) [0..<NUM_PRIORS cfg])))"
  by (simp add: cands_def get_one_class_max_score_index_def Let_def)

lemma cands_mem:
  assumes "e \<in> set (cands cfg conf c)"
  shows "snd e < NUM_PRIORS cfg" and "fst e = conf (c + snd e * NUM_CLASSES cfg)"
    and "fst e > NMS_CONF_THRESH cfg"
proof -
  from assms have "e \<in> set (filter (\<lambda>p. fst p > NMS_CONF_THRESH cfg)
        (map (\<lambda>i. (conf (c + i * NUM_CLASSES cfg), i)) [0..<NUM_PRIORS cfg]))"
    unfolding cands_eq using set_take_subset set_sort_desc by fastforce
  then show "snd e < NUM_PRIORS cfg" and "fst e = conf (c + snd e * NUM_CLASSES cfg)"
    and "fst e > NMS_CONF_THRESH cfg" by auto
qed

lemma fold_update_nth:
  "distinct cs \<Longrightarrow> c < length v0 \<Longrightarrow>
   fold (\<lambda>i v. v[i := f i (v ! i)]) cs v0 ! c = (if c \<in> set cs then f c (v0 ! c) else v0 ! c)"
proof (induction cs arbitrary: v0)
  case Nil
  then show ?case by simp
next
  case (Cons a cs)
  then show ?case by (cases "c = a") auto
qed

lemma multi_class_nth:
  assumes "c < NUM_CLASSES cfg"
  shows "get_multi_class_max_score_index cfg conf 1 (NUM_CLASSES cfg - 1)
           (replicate (NUM_CLASSES cfg) []) ! c = (if 1 \<le> c then cands cfg conf c else [])"
proof -
  have "[1..<1 + (NUM_CLASSES cfg - 1)] = [1..<NUM_CLASSES cfg]"
    using assms by simp
  then show ?thesis
    using assms fold_update_nth[of "[1..<NUM_CLASSES cfg]" c "replicate (NUM_CLASSES cfg) []"
                 "\<lambda>i x. get_one_class_max_score_index cfg conf i x"]
    by (simp add: get_multi_class_max_score_index_def cands_def)
qed

lemma fold_class_step_ok:
  assumes "\<forall>c\<in>set cs. \<forall>e\<in>set (siv ! c). snd e < NUM_PRIORS cfg"
    and "cache_ok cfg loc mk pr st0"
    and "distinct cs" and "\<forall>c\<in>set cs. c < length ind0"
    and "fold (nms_class_step nmsf cfg loc mk pr siv) cs (st0, ind0, n0) = (st, ind, n)"
  shows "cache_ok cfg loc mk pr st \<and>
         (\<forall>c\<in>set cs. ind ! c = kept_indices nmsf cfg loc pr (siv ! c)) \<and>
         dom (decoded_bboxes st) = dom (decoded_bboxes st0) \<union> (\<Union>c\<in>set cs. snd ` set (siv ! c))"
  using assms
proof (induction cs arbitrary: st ind n rule: rev_induct)
  case Nil
  then show ?case by simp
next
  case (snoc c cs)
  obtain st1 ind1 n1 where f1: "fold (nms_class_step nmsf cfg loc mk pr siv) cs (st0, ind0, n0) = (st1, ind1, n1)"
    by (metis prod_cases3)
  from snoc.prems have d: "distinct cs" "c \<notin> set cs" and b: "\<forall>c\<in>set cs. c < length ind0" "c < length ind0"
    and lt: "\<forall>c\<in>set cs. \<forall>e\<in>set (siv ! c). snd e < NUM_PRIORS cfg" "\<forall>e\<in>set (siv ! c). snd e < NUM_PRIORS cfg"
    by auto
  from snoc.IH[OF lt(1) snoc.prems(2) d(1) b(1) f1]
  have ih: "cache_ok cfg loc mk pr st1"
    "\<forall>c\<in>set cs. ind1 ! c = kept_indices nmsf cfg loc pr (siv ! c)"
    "dom (decoded_bboxes st1) = dom (decoded_bboxes st0) \<union> (\<Union>c\<in>set cs. snd ` set (siv ! c))"
    by auto
  from fold_class_step_inv[OF d(1) b(1) f1] have len1: "length ind1 = length ind0" by simp
  from apply_one_class_nms_ok[OF ih(1) lt(2), of nmsf c] obtain st2 where
    a: "apply_one_class_nms nmsf cfg loc mk pr c (siv ! c) st1 = (st2, kept_indices nmsf cfg loc pr (siv ! c))"
    and ok2: "cache_ok cfg loc mk pr st2"
    and dom2: "dom (decoded_bboxes st2) = snd ` set (siv ! c) \<union> dom (decoded_bboxes st1)"
    by blast
  from snoc.prems(5) f1 have "nms_class_step nmsf cfg loc mk pr siv c (st1, ind1, n1) = (st, ind, n)"
    by simp
  with a have e: "st = st2" "ind = ind1[c := kept_indices nmsf cfg loc pr (siv ! c)]"
    by (auto simp: nms_class_step_def)
  have 1: "cache_ok cfg loc mk pr st" using ok2 e(1) by simp
  have 2: "\<forall>x\<in>set (cs @ [c]). ind ! x = kept_indices nmsf cfg loc pr (siv ! x)"
  proof
    fix x assume x: "x \<in> set (cs @ [c])"
    show "ind ! x = kept_indices nmsf cfg loc pr (siv ! x)"
    proof (cases "x = c")
      case True
      then show ?thesis using e(2) b(2) len1 by simp
    next
      case False
      with x have "x \<in> set cs" by simp
      with ih(2) False show ?thesis using e(2) by simp
    qed
  qed
  have 3: "dom (decoded_bboxes st) = dom (decoded_bboxes st0) \<union> (\<Union>c\<in>set (cs @ [c]). snd ` set (siv ! c))"
    using dom2 ih(3) e(1) by auto
  from 1 2 3 show ?case by blast
qed

lemma class_survivors_pure:
  assumes "class_survivors nmsf cfg loc conf mk pr st = (st1, indices, num_det)"
  shows "cache_ok cfg loc mk pr st1"
    and "\<forall>c. 1 \<le> c \<and> c < NUM_CLASSES cfg \<longrightarrow>
             indices ! c = kept_indices nmsf cfg loc pr (cands cfg conf c)"
    and "0 < NUM_CLASSES cfg \<longrightarrow> indices ! 0 = []"
    and "dom (decoded_bboxes st1) = (\<Union>c\<in>{1..<NUM_CLASSES cfg}. snd ` set (cands cfg conf c))"
proof -
  let ?siv = "get_multi_class_max_score_index cfg conf 1 (NUM_CLASSES cfg - 1)
              (replicate (NUM_CLASSES cfg) [])"
  let ?st0 = "st\<lparr>decoded_bboxes := Map.empty, masks := Map.empty, decode_calls := []\<rparr>"
  let ?ind0 = "replicate (NUM_CLASSES cfg) ([]::nat list)"
  have f: "fold (nms_class_step nmsf cfg loc mk pr ?siv) [1..<NUM_CLASSES cfg] (?st0, ?ind0, 0) =
           (st1, indices, num_det)"
    using assms by (simp add: class_survivors_def nms_all_classes_def Let_def)
  have siv: "\<forall>c\<in>set [1..<NUM_CLASSES cfg]. ?siv ! c = cands cfg conf c"
  proof
    fix c assume "c \<in> set [1..<NUM_CLASSES cfg]"
    then have "c < NUM_CLASSES cfg" "1 \<le> c" by auto
    then show "?siv ! c = cands cfg conf c"
      using multi_class_nth[of c cfg conf] by presburger
  qed
  have lt: "\<forall>c\<in>set [1..<NUM_CLASSES cfg]. \<forall>e\<in>set (?siv ! c). snd e < NUM_PRIORS cfg"
    using siv cands_mem(1) by (metis)
  have ok0: "cache_ok cfg loc mk pr ?st0" by (simp add: cache_ok_def)
  have d: "distinct [1..<NUM_CLASSES cfg]" "\<forall>c\<in>set [1..<NUM_CLASSES cfg]. c < length ?ind0"
    by auto
  from fold_class_step_ok[OF lt ok0 d f]
  have r: "cache_ok cfg loc mk pr st1"
    "\<forall>c\<in>set [1..<NUM_CLASSES cfg]. indices ! c = kept_indices nmsf cfg loc pr (?siv ! c)"
    "dom (decoded_bboxes st1) = dom (decoded_bboxes ?st0) \<union> (\<Union>c\<in>set [1..<NUM_CLASSES cfg]. snd ` set (?siv ! c))"
    by auto
  from fold_class_step_inv[OF d f]
  have inv: "\<forall>c. c \<notin> set [1..<NUM_CLASSES cfg] \<longrightarrow> indices ! c = ?ind0 ! c" by simp
  show "cache_ok cfg loc mk pr st1" by (rule r(1))
  show "\<forall>c. 1 \<le> c \<and> c < NUM_CLASSES cfg \<longrightarrow>
             indices ! c = kept_indices nmsf cfg loc pr (cands cfg conf c)"
    using r(2) siv by simp
  show "0 < NUM_CLASSES cfg \<longrightarrow> indices ! 0 = []"
    using inv by simp
  show "dom (decoded_bboxes st1) = (\<Union>c\<in>{1..<NUM_CLASSES cfg}. snd ` set (cands cfg conf c))"
    using r(3) siv by simp
qed

lemma ensure_decoded_keeps:
  assumes "decoded_bboxes st idx = Some b"
  shows "decoded_bboxes (fst (ensure_decoded cfg loc mk pr j (st, m))) idx = Some b"
    and "count_list (decode_calls (fst (ensure_decoded cfg loc mk pr j (st, m)))) idx =
         count_list (decode_calls st) idx"
proof -
  have "j \<noteq> idx" if "decoded_bboxes st j = None" using that assms by auto
  then show "decoded_bboxes (fst (ensure_decoded cfg loc mk pr j (st, m))) idx = Some b"
    and "count_list (decode_calls (fst (ensure_decoded cfg loc mk pr j (st, m)))) idx =
         count_list (decode_calls st) idx"
    using assms by (auto simp: ensure_decoded_def decode_bbox_def emplace_def)
qed

lemma index_bbox_keeps:
  assumes "decoded_bboxes st idx = Some b"
  shows "decoded_bboxes (snd (index_bbox st j)) idx = Some b"
    and "decode_calls (snd (index_bbox st j)) = decode_calls st"
  using assms by (auto simp: index_bbox_def split: option.splits)

lemma nms_visit_state:
  "nv_state (nms_visit cfg loc mk pr e v) =
     snd (index_bbox (fst (ensure_decoded cfg loc mk pr (snd e) (nv_state v, nv_mask v))) (snd e))"
  by (simp add: nms_visit_def split: prod.splits)

lemma nms_visit_keeps:
  assumes "decoded_bboxes (nv_state v) idx = Some b"
  shows "decoded_bboxes (nv_state (nms_visit cfg loc mk pr e v)) idx = Some b"
    and "count_list (decode_calls (nv_state (nms_visit cfg loc mk pr e v))) idx =
         count_list (decode_calls (nv_state v)) idx"
proof -
  let ?s1 = "fst (ensure_decoded cfg loc mk pr (snd e) (nv_state v, nv_mask v))"
  have 1: "decoded_bboxes ?s1 idx = Some b"
    by (rule ensure_decoded_keeps(1)[OF assms])
  show "decoded_bboxes (nv_state (nms_visit cfg loc mk pr e v)) idx = Some b"
    unfolding nms_visit_state by (rule index_bbox_keeps(1)[OF 1])
  show "count_list (decode_calls (nv_state (nms_visit cfg loc mk pr e v))) idx =
         count_list (decode_calls (nv_state v)) idx"
    unfolding nms_visit_state index_bbox_keeps(2)[OF 1]
    by (rule ensure_decoded_keeps(2)[OF assms])
qed

lemma nms_gather_keeps:
  assumes "decoded_bboxes (nv_state v) idx = Some b"
  shows "decoded_bboxes (nv_state (fold (nms_visit cfg loc mk pr) vec v)) idx = Some b \<and>
         count_list (decode_calls (nv_state (fold (nms_visit cfg loc mk pr) vec v))) idx =
         count_list (decode_calls (nv_state v)) idx"
  using assms
proof (induction vec arbitrary: v)
  case Nil
  then show ?case by simp
next
  case (Cons e vec)
  from Cons.IH[OF nms_visit_keeps(1)[OF Cons.prems, of cfg loc mk pr e]]
    nms_visit_keeps(2)[OF Cons.prems, of cfg loc mk pr e]
  show ?case by simp
qed

lemma apply_one_class_nms_state:
  "fst (apply_one_class_nms nmsf cfg loc mk pr c vec st) =
   nv_state (fold (nms_visit cfg loc mk pr) vec
                \<lparr>nv_state = st, nv_mask = [], nv_boxes = [], nv_scores = [],
                 nv_resultmap = Map.empty, nv_i = 0\<rparr>)"
  by (simp add: apply_one_class_nms_def Let_def)

lemma apply_one_class_nms_keeps:
  assumes "decoded_bboxes st idx = Some b"
  shows "decoded_bboxes (fst (apply_one_class_nms nmsf cfg loc mk pr c vec st)) idx = Some b \<and>
         count_list (decode_calls (fst (apply_one_class_nms nmsf cfg loc mk pr c vec st))) idx =
         count_list (decode_calls st) idx"
  unfolding apply_one_class_nms_state
  using nms_gather_keeps[of "\<lparr>nv_state = st, nv_mask = [], nv_boxes = [], nv_scores = [],
                 nv_resultmap = Map.empty, nv_i = 0\<rparr>" idx b cfg loc mk pr vec] assms
  by simp

lemma detect_state:
  "fst (detect nmsf cfg loc conf mk pr br mr st) = fst (class_survivors nmsf cfg loc conf mk pr st)"
  by (simp add: detect_def Let_def split: prod.splits)

text \<open>
  Claim C4.  Within one call of \<open>detect\<close> every prior index is decoded at most once
  (the record of the calls of \<open>decode_bbox\<close> has no repetition), the indices decoded
  are exactly the keys of the cache, and each cached box is the decoding of its index.
  A class that meets an index already in the cache does not decode it again and leaves
  the cached box as it is, so every later request gets the identical box.
\<close>

theorem decode_at_most_once:
  "(let st1 = fst (detect nmsf cfg loc_data conf_data mask_data prior_data box_result mask_result st)
    in distinct (decode_calls st1) \<and>
       set (decode_calls st1) = dom (decoded_bboxes st1) \<and>
       (\<forall>idx \<in> set (decode_calls st1).
           decoded_bboxes st1 idx = Some (dbox prior_data loc_data idx))) \<and>
   (\<forall>st' idx b c vec.
       decoded_bboxes st' idx = Some b \<longrightarrow>
       (let st2 = fst (apply_one_class_nms nmsf cfg loc_data mask_data prior_data c vec st')
        in decoded_bboxes st2 idx = Some b \<and>
           count_list (decode_calls st2) idx = count_list (decode_calls st') idx))"
proof -
  obtain st1 indices num_det where
    cs: "class_survivors nmsf cfg loc_data conf_data mask_data prior_data st = (st1, indices, num_det)"
    by (metis prod_cases3)
  have ok: "cache_ok cfg loc_data mask_data prior_data st1"
    by (rule class_survivors_pure(1)[OF cs])
  have 1: "distinct (decode_calls st1)" "set (decode_calls st1) = dom (decoded_bboxes st1)"
    using ok by (simp_all add: cache_ok_def)
  have 2: "\<forall>idx \<in> set (decode_calls st1). decoded_bboxes st1 idx = Some (dbox prior_data loc_data idx)"
  proof
    fix idx assume "idx \<in> set (decode_calls st1)"
    with 1(2) obtain b where b: "decoded_bboxes st1 idx = Some b" by auto
    with ok have "b = dbox prior_data loc_data idx"
      by (auto simp: cache_ok_def split: option.splits dest: spec[of _ idx])
    with b show "decoded_bboxes st1 idx = Some (dbox prior_data loc_data idx)" by simp
  qed
  have st1: "fst (detect nmsf cfg loc_data conf_data mask_data prior_data box_result mask_result st) = st1"
    by (simp add: detect_state cs)
  show ?thesis
    using 1 2 apply_one_class_nms_keeps unfolding st1 Let_def by blast
qed

section \<open>Suppression on the ranked candidates\<close>

lemma greedy_nms_subset: "set (greedy_nms thr bs ps) \<subseteq> set ps"
proof (induction thr bs ps rule: greedy_nms.induct)
  case (1 nms boxes)
  then show ?case by simp
next
  case (2 nms boxes i rest)
  then show ?case by auto
qed

lemma greedy_keep_subset: "set (greedy_keep ovl xs) \<subseteq> set xs"
proof (induction ovl xs rule: greedy_keep.induct)
  case (1 ovl)
  then show ?case by simp
next
  case (2 ovl x xs)
  then show ?case by auto
qed

lemma applyNMS_positions: "set (applyNMS boxes scores nms conf) \<subseteq> {0..<length boxes}"
proof -
  have "set (applyNMS boxes scores nms conf) \<subseteq>
        set (filter (\<lambda>i. \<not> scores ! i < conf) (sort_desc (\<lambda>i. scores ! i) [0..<length boxes]))"
    unfolding applyNMS_def Let_def by (rule greedy_nms_subset)
  then show ?thesis by auto
qed

lemma greedy_nms_map:
  "\<forall>r\<in>set ps. r < length es \<Longrightarrow>
   map (\<lambda>r. es ! r) (greedy_nms thr (map bx es) ps) =
   greedy_keep (\<lambda>y x. iou (bx y) (bx x) > thr) (map (\<lambda>r. es ! r) ps)"
proof (induction thr "map bx es" ps rule: greedy_nms.induct)
  case (1 nms)
  then show ?case by simp
next
  case (2 nms i rest)
  let ?keep = "filter (\<lambda>j. \<not> iou (map bx es ! j) (map bx es ! i) > nms) rest"
  have sub: "\<forall>r\<in>set ?keep. r < length es" using "2.prems" by auto
  have i: "i < length es" using "2.prems" by simp
  have "map (\<lambda>r. es ! r) ?keep =
        filter (\<lambda>y. \<not> iou (bx y) (bx (es ! i)) > nms) (map (\<lambda>r. es ! r) rest)"
    unfolding filter_map comp_def
    by (rule arg_cong[where f="map (\<lambda>r. es ! r)"], rule filter_cong[OF refl])
       (use "2.prems" i in auto)
  with "2.hyps"[OF sub] i show ?case by simp
qed

lemma sort_desc_sorted_id:
  "sorted (map (\<lambda>e. - f e) xs) \<Longrightarrow> sort_desc f xs = xs"
  unfolding sort_desc_def by (rule sort_key_id_if_sorted)

lemma sorted_sort_desc: "sorted (map (\<lambda>e. - f e) (sort_desc f xs))"
  unfolding sort_desc_def by (rule sorted_sort_key)

lemma cands_sorted: "sorted (map (\<lambda>e. - fst e) (cands cfg conf c))"
  unfolding cands_eq take_map[symmetric]
  by (rule sorted_wrt_take, rule sorted_sort_desc)

text \<open>On the ranked candidates \<open>applyNMS\<close> is the greedy pass in their order.\<close>

lemma applyNMS_sorted:
  assumes "sorted (map (\<lambda>e. - fst e) es)" and "\<forall>e\<in>set es. \<not> fst e < conf"
  shows "map (\<lambda>r. es ! r) (applyNMS (map bx es) (map fst es) thr conf) =
         greedy_keep (\<lambda>y x. iou (bx y) (bx x) > thr) es"
proof -
  let ?n = "length es"
  have m: "map (\<lambda>i. - (map fst es ! i)) [0..<?n] = map (\<lambda>e. - fst e) es"
    by (rule nth_equalityI) auto
  have order: "sort_desc (\<lambda>i. map fst es ! i) [0..<?n] = [0..<?n]"
    by (rule sort_desc_sorted_id) (simp only: m assms(1))
  have flt: "filter (\<lambda>i. \<not> map fst es ! i < conf) [0..<?n] = [0..<?n]"
    using assms(2) by (auto simp: filter_id_conv)
  have "applyNMS (map bx es) (map fst es) thr conf = greedy_nms thr (map bx es) [0..<?n]"
    by (simp add: applyNMS_def Let_def order flt)
  moreover have "map (\<lambda>r. es ! r) (greedy_nms thr (map bx es) [0..<?n]) =
        greedy_keep (\<lambda>y x. iou (bx y) (bx x) > thr) (map (\<lambda>r. es ! r) [0..<?n])"
    by (rule greedy_nms_map) simp
  ultimately show ?thesis by (simp add: map_nth)
qed

lemma kept_indices_applyNMS:
  "kept_indices applyNMS cfg loc pr (cands cfg conf c) = map snd (survivors cfg loc conf pr c)"
proof -
  let ?es = "cands cfg conf c"
  let ?res = "applyNMS (map (\<lambda>e. dbox pr loc (snd e)) ?es) (map fst ?es) (NMS_THRESH cfg) (NMS_CONF_THRESH cfg)"
  have pos: "\<forall>r\<in>set ?res. r < length ?es"
    using applyNMS_positions[of "map (\<lambda>e. dbox pr loc (snd e)) ?es"] by fastforce
  have "kept_indices applyNMS cfg loc pr ?es = map (\<lambda>r. snd (?es ! r)) ?res"
    unfolding kept_indices_def using pos by (intro map_cong) auto
  also have "\<dots> = map snd (map (\<lambda>r. ?es ! r) ?res)" by simp
  also have "map (\<lambda>r. ?es ! r) ?res =
     greedy_keep (\<lambda>y x. iou (dbox pr loc (snd y)) (dbox pr loc (snd x)) > NMS_THRESH cfg) ?es"
  proof (rule applyNMS_sorted[OF cands_sorted])
    show "\<forall>e\<in>set ?es. \<not> fst e < NMS_CONF_THRESH cfg"
      using cands_mem(3) by fastforce
  qed
  finally show ?thesis by (simp add: survivors_def overlaps_def[abs_def])
qed

section \<open>The global cap\<close>

lemma survivors_subset: "set (survivors cfg loc conf pr c) \<subseteq> set (cands cfg conf c)"
  unfolding survivors_def by (rule greedy_keep_subset)

lemma class_survivors_applyNMS:
  assumes "class_survivors applyNMS cfg loc conf mk pr st = (st1, indices, num_det)"
    and "1 \<le> c" and "c < NUM_CLASSES cfg"
  shows "indices ! c = map snd (survivors cfg loc conf pr c)"
  using class_survivors_pure(2)[OF assms(1)] assms(2,3) kept_indices_applyNMS by simp

lemma regroup_fold_set:
  "l < length ind \<Longrightarrow>
   set (fold (\<lambda>item indices. indices[fst (snd item) := indices ! fst (snd item) @ [snd (snd item)]])
          ts ind ! l) =
   set (ind ! l) \<union> {i. \<exists>s. (s, l, i) \<in> set ts}"
proof (induction ts arbitrary: ind)
  case Nil
  then show ?case by simp
next
  case (Cons t ts)
  obtain s0 l0 i0 where t: "t = (s0, l0, i0)" by (cases t) auto
  let ?ind1 = "ind[l0 := ind ! l0 @ [i0]]"
  have len: "l < length ?ind1" using Cons.prems by simp
  have "set (?ind1 ! l) = set (ind ! l) \<union> (if l0 = l then {i0} else {})"
    using Cons.prems by (auto simp: nth_list_update)
  with Cons.IH[OF len] show ?case
    by (auto simp: t)
qed

lemma regroup_set:
  "l < NUM_CLASSES cfg \<Longrightarrow> set (regroup cfg ts ! l) = {i. \<exists>s. (s, l, i) \<in> set ts}"
  unfolding regroup_def using regroup_fold_set[of l "replicate (NUM_CLASSES cfg) []" ts]
  by simp

lemma tuples_mem:
  "(s, l, i) \<in> set (score_index_tuples cfg conf indices) \<longleftrightarrow>
   l < NUM_CLASSES cfg \<and> i \<in> set (indices ! l) \<and> s = conf (i * NUM_CLASSES cfg + l)"
  by (auto simp: score_index_tuples_def)

lemma keep_top_k_length:
  "length indices = NUM_CLASSES cfg \<Longrightarrow> length (keep_top_k cfg conf indices n) = NUM_CLASSES cfg"
  by (simp add: keep_top_k_def length_regroup)

lemma keep_top_k_subset:
  assumes "c < NUM_CLASSES cfg"
  shows "set (keep_top_k cfg conf indices n ! c) \<subseteq> set (indices ! c)"
proof (cases "KEEP_TOP_K cfg > 0 \<and> n > KEEP_TOP_K cfg")
  case True
  then have k: "keep_top_k cfg conf indices n =
       regroup cfg (take (KEEP_TOP_K cfg) (sort_desc fst (score_index_tuples cfg conf indices)))"
    by (simp add: keep_top_k_def)
  show ?thesis
  proof
    fix i assume "i \<in> set (keep_top_k cfg conf indices n ! c)"
    then obtain s where "(s, c, i) \<in> set (take (KEEP_TOP_K cfg)
                              (sort_desc fst (score_index_tuples cfg conf indices)))"
      unfolding k regroup_set[OF assms] by blast
    then have "(s, c, i) \<in> set (score_index_tuples cfg conf indices)"
      using set_take_subset set_sort_desc by fastforce
    then show "i \<in> set (indices ! c)" by (simp add: tuples_mem)
  qed
next
  case False
  then have "keep_top_k cfg conf indices n = indices"
    unfolding keep_top_k_def by (simp only: if_False)
  then show ?thesis by simp
qed

lemma emit_results_mem:
  "(b, m) \<in> set (emit_results cfg conf st ind) \<longleftrightarrow>
   (\<exists>c idx. 1 \<le> c \<and> c < length ind \<and> idx \<in> set (ind ! c) \<and>
      b = make_box cfg conf st c idx \<and> m = lookup_vec (masks st) idx)"
  by (auto simp: emit_results_def)

lemma cache_ok_lookup:
  assumes "cache_ok cfg loc mk pr st" and "idx \<in> dom (decoded_bboxes st)"
  shows "decoded_bboxes st idx = Some (dbox pr loc idx)"
    and "masks st idx = Some (mask_coeffs cfg mk idx)"
    and "idx < NUM_PRIORS cfg"
  using assms by (auto simp: cache_ok_def split: option.splits dest: spec[of _ idx])

section \<open>Scores of the output\<close>

lemma detect_out:
  assumes "class_survivors nmsf cfg loc conf mk pr st = (st1, indices, num_det)"
  shows "detect nmsf cfg loc conf mk pr [] [] st =
         (st1, map fst (emit_results cfg conf st1 (keep_top_k cfg conf indices num_det)),
               map snd (emit_results cfg conf st1 (keep_top_k cfg conf indices num_det)))"
  by (simp add: detect_def assms Let_def)

text \<open>Every emitted pair comes from a surviving ranked candidate of its class.\<close>

lemma emitted_from_candidate:
  assumes cs: "class_survivors applyNMS cfg loc conf mk pr st = (st1, indices, num_det)"
    and mem: "(b, m) \<in> set (emit_results cfg conf st1 (keep_top_k cfg conf indices num_det))"
  shows "\<exists>idx. (box_score b, idx) \<in> set (survivors cfg loc conf pr (box_label b)) \<and>
           1 \<le> box_label b \<and> box_label b < NUM_CLASSES cfg \<and>
           b = make_box cfg conf st1 (box_label b) idx \<and>
           decoded_bboxes st1 idx = Some (dbox pr loc idx) \<and>
           m = mask_coeffs cfg mk idx"
proof -
  have len: "length indices = NUM_CLASSES cfg" by (rule class_survivors_shape(1)[OF cs])
  from mem obtain c idx where c: "1 \<le> c" "c < NUM_CLASSES cfg"
    and idx: "idx \<in> set (keep_top_k cfg conf indices num_det ! c)"
    and b: "b = make_box cfg conf st1 c idx" and m: "m = lookup_vec (masks st1) idx"
    unfolding emit_results_mem keep_top_k_length[OF len] by blast
  from idx keep_top_k_subset[OF c(2)] have "idx \<in> set (indices ! c)" by blast
  then have "idx \<in> snd ` set (survivors cfg loc conf pr c)"
    unfolding class_survivors_applyNMS[OF cs c] by simp
  then obtain s where s: "(s, idx) \<in> set (survivors cfg loc conf pr c)" by force
  with survivors_subset have sc: "(s, idx) \<in> set (cands cfg conf c)" by blast
  from cands_mem(2)[OF sc] have "s = conf (idx * NUM_CLASSES cfg + c)"
    by (simp add: add.commute)
  then have sb: "box_score b = s" by (simp add: b make_box_def Let_def)
  have lb: "box_label b = c" by (simp add: b make_box_def Let_def)
  have "idx \<in> dom (decoded_bboxes st1)"
    unfolding class_survivors_pure(4)[OF cs] using sc c by force
  from cache_ok_lookup[OF class_survivors_pure(1)[OF cs] this]
  have "decoded_bboxes st1 idx = Some (dbox pr loc idx)" "masks st1 idx = Some (mask_coeffs cfg mk idx)"
    by simp_all
  with s sb lb c b m show ?thesis by (auto simp: lookup_vec_def)
qed

text \<open>
  Claim C10.  Every detection of the final output comes from a prior index \<open>idx\<close>
  that the ranking of its class retained: its score is above the confidence threshold
  and is the confidence entry at \<open>idx * NUM_CLASSES + label\<close>, the value that passed
  the gate of \<open>get_one_class_max_score_index\<close>; its coefficients are those of \<open>idx\<close>.
\<close>

theorem output_scores_pass_gate:
  "case detect applyNMS cfg loc_data conf_data mask_data prior_data [] [] st of
     (st1, boxes, mask_vecs) \<Rightarrow>
       length mask_vecs = length boxes \<and>
       (\<forall>k<length boxes. \<exists>idx.
           (box_score (boxes ! k), idx) \<in>
              set (get_one_class_max_score_index cfg conf_data (box_label (boxes ! k)) []) \<and>
           idx < NUM_PRIORS cfg \<and>
           box_score (boxes ! k) = conf_data (idx * NUM_CLASSES cfg + box_label (boxes ! k)) \<and>
           NMS_CONF_THRESH cfg < box_score (boxes ! k) \<and>
           mask_vecs ! k = mask_coeffs cfg mask_data idx)"
proof -
  obtain st1 indices num_det where
    cs: "class_survivors applyNMS cfg loc_data conf_data mask_data prior_data st = (st1, indices, num_det)"
    by (metis prod_cases3)
  define out where "out = emit_results cfg conf_data st1 (keep_top_k cfg conf_data indices num_det)"
  have det: "detect applyNMS cfg loc_data conf_data mask_data prior_data [] [] st =
             (st1, map fst out, map snd out)"
    unfolding out_def by (rule detect_out[OF cs])
  have "\<exists>idx. (box_score (map fst out ! k), idx) \<in>
              set (get_one_class_max_score_index cfg conf_data (box_label (map fst out ! k)) []) \<and>
           idx < NUM_PRIORS cfg \<and>
           box_score (map fst out ! k) = conf_data (idx * NUM_CLASSES cfg + box_label (map fst out ! k)) \<and>
           NMS_CONF_THRESH cfg < box_score (map fst out ! k) \<and>
           map snd out ! k = mask_coeffs cfg mask_data idx" if k: "k < length out" for k
  proof -
    obtain b m where bm: "out ! k = (b, m)" by (cases "out ! k") auto
    with k have "(b, m) \<in> set out" by (metis nth_mem)
    from emitted_from_candidate[OF cs this[unfolded out_def]] obtain idx where
      s: "(box_score b, idx) \<in> set (survivors cfg loc_data conf_data prior_data (box_label b))"
      and m: "m = mask_coeffs cfg mask_data idx" by blast
    from s survivors_subset have sc: "(box_score b, idx) \<in> set (cands cfg conf_data (box_label b))"
      by blast
    from cands_mem[OF sc] have "idx < NUM_PRIORS cfg"
      "box_score b = conf_data (idx * NUM_CLASSES cfg + box_label b)"
      "NMS_CONF_THRESH cfg < box_score b"
      by (simp_all add: add.commute)
    with sc m k bm show ?thesis
      by (intro exI[of _ idx]) (simp add: cands_def)
  qed
  then show ?thesis by (simp add: det)
qed

section \<open>Inputs with few confidences above the threshold\<close>

lemma make_box_pure:
  "decoded_bboxes st idx = Some (dbox pr loc idx) \<Longrightarrow>
   make_box cfg conf st c idx = pure_box cfg conf pr loc c idx"
  by (simp add: make_box_def pure_box_def lookup_vec_def Let_def)

lemma filter_upt_eq:
  assumes "sorted xs" and "distinct xs" and "\<forall>i. (i < n \<and> Q i) \<longleftrightarrow> i \<in> set xs"
  shows "filter Q [0..<n] = xs"
proof (rule sorted_distinct_set_unique)
  show "sorted (filter Q [0..<n])" by (rule sorted_wrt_filter) simp
  show "distinct (filter Q [0..<n])" by simp
  show "set (filter Q [0..<n]) = set xs" using assms(3) by auto
qed (use assms in auto)

lemma cands_of_list:
  assumes "sorted xs" and "distinct xs"
    and "\<forall>i. (i < NUM_PRIORS cfg \<and> conf (c + i * NUM_CLASSES cfg) > NMS_CONF_THRESH cfg) \<longleftrightarrow> i \<in> set xs"
  shows "cands cfg conf c =
         take (NMS_TOP_K cfg) (sort_desc fst (map (\<lambda>i. (conf (c + i * NUM_CLASSES cfg), i)) xs))"
proof -
  have "filter (\<lambda>p. fst p > NMS_CONF_THRESH cfg)
          (map (\<lambda>i. (conf (c + i * NUM_CLASSES cfg), i)) [0..<NUM_PRIORS cfg]) =
        map (\<lambda>i. (conf (c + i * NUM_CLASSES cfg), i))
          (filter (\<lambda>i. conf (c + i * NUM_CLASSES cfg) > NMS_CONF_THRESH cfg) [0..<NUM_PRIORS cfg])"
    by (simp add: filter_map comp_def)
  also have "filter (\<lambda>i. conf (c + i * NUM_CLASSES cfg) > NMS_CONF_THRESH cfg) [0..<NUM_PRIORS cfg] = xs"
    by (rule filter_upt_eq[OF assms])
  finally show ?thesis by (simp add: cands_eq)
qed

lemma cands_none:
  assumes "\<forall>i<NUM_PRIORS cfg. \<not> conf (c + i * NUM_CLASSES cfg) > NMS_CONF_THRESH cfg"
  shows "cands cfg conf c = []"
  using cands_of_list[of "[]" cfg conf c] assms by (auto simp: sort_desc_def)

lemma cands_single:
  assumes "p < NUM_PRIORS cfg" and "conf (c + p * NUM_CLASSES cfg) > NMS_CONF_THRESH cfg"
    and "\<forall>i<NUM_PRIORS cfg. i \<noteq> p \<longrightarrow> \<not> conf (c + i * NUM_CLASSES cfg) > NMS_CONF_THRESH cfg"
    and "0 < NMS_TOP_K cfg"
  shows "cands cfg conf c = [(conf (c + p * NUM_CLASSES cfg), p)]"
proof -
  have "cands cfg conf c =
         take (NMS_TOP_K cfg) (sort_desc fst (map (\<lambda>i. (conf (c + i * NUM_CLASSES cfg), i)) [p]))"
    by (rule cands_of_list) (use assms in auto)
  with assms(4) show ?thesis by (simp add: sort_desc_def take_Cons')
qed

lemma survivors_none: "cands cfg conf c = [] \<Longrightarrow> survivors cfg loc conf pr c = []"
  by (simp add: survivors_def)

lemma survivors_single: "cands cfg conf c = [e] \<Longrightarrow> survivors cfg loc conf pr c = [e]"
  by (simp add: survivors_def)

lemma concat_map_single:
  assumes "a \<le> k" and "k < b" and "\<forall>c. a \<le> c \<and> c < b \<and> c \<noteq> k \<longrightarrow> f c = []"
  shows "concat (map f [a..<b]) = f k"
proof -
  have split: "[a..<b] = [a..<k] @ k # [Suc k..<b]"
    using assms(1,2) by (metis le_add_diff_inverse less_imp_le_nat upt_add_eq_append upt_conv_Cons)
  have 1: "concat (map f [a..<k]) = []" using assms(2,3) by auto
  have 2: "concat (map f [Suc k..<b]) = []" using assms(1,3) by auto
  show ?thesis unfolding split by (simp add: 1 2)
qed

lemma distinct_set_single:
  assumes "distinct xs" and "set xs = {p}"
  shows "xs = [p]"
proof (cases xs)
  case Nil
  with assms(2) show ?thesis by simp
next
  case (Cons a ys)
  with assms have a: "a = p" and "set ys \<subseteq> {p}" and "p \<notin> set ys" by auto
  then have "ys = []" by (cases ys) auto
  with a Cons show ?thesis by simp
qed

text \<open>The output when a single class has survivors.\<close>

lemma detect_single_class:
  assumes c0: "1 \<le> c0" "c0 < NUM_CLASSES cfg"
    and none: "\<forall>c. 1 \<le> c \<and> c < NUM_CLASSES cfg \<and> c \<noteq> c0 \<longrightarrow> cands cfg conf c = []"
    and one: "cands cfg conf c0 = [(s, p)]"
    and cs: "class_survivors applyNMS cfg loc conf mk pr st = (st1, indices, num_det)"
  shows "detect applyNMS cfg loc conf mk pr [] [] st =
           (st1, [pure_box cfg conf pr loc c0 p], [mask_coeffs cfg mk p])"
    and "decode_calls st1 = [p]" and "num_det = 1"
    and "indices ! c0 = [p]"
proof -
  have len: "length indices = NUM_CLASSES cfg" by (rule class_survivors_shape(1)[OF cs])
  have ind: "indices ! c = (if c = c0 then [p] else [])" if "1 \<le> c" "c < NUM_CLASSES cfg" for c
    using class_survivors_applyNMS[OF cs that] none one that
    by (auto simp: survivors_none survivors_single)
  from ind[OF c0] show i0: "indices ! c0 = [p]" by simp
  have "num_det = sum_list (map (\<lambda>c. length (indices ! c)) [1..<NUM_CLASSES cfg])"
    by (rule class_survivors_shape(2)[OF cs])
  also have "\<dots> = length (concat (map (\<lambda>c. indices ! c) [1..<NUM_CLASSES cfg]))"
    by (simp add: length_concat comp_def)
  also have "concat (map (\<lambda>c. indices ! c) [1..<NUM_CLASSES cfg]) = indices ! c0"
    by (rule concat_map_single) (use c0 ind in auto)
  finally show nd: "num_det = 1" using i0 by simp
  have keep: "keep_top_k cfg conf indices num_det = indices"
    unfolding keep_top_k_def nd by auto
  have dom: "dom (decoded_bboxes st1) = {p}"
  proof -
    have "(\<Union>c\<in>{1..<NUM_CLASSES cfg}. snd ` set (cands cfg conf c)) = {p}"
    proof
      show "(\<Union>c\<in>{1..<NUM_CLASSES cfg}. snd ` set (cands cfg conf c)) \<subseteq> {p}"
      proof
        fix i assume "i \<in> (\<Union>c\<in>{1..<NUM_CLASSES cfg}. snd ` set (cands cfg conf c))"
        then obtain c where c: "c \<in> {1..<NUM_CLASSES cfg}" and i: "i \<in> snd ` set (cands cfg conf c)"
          by blast
        show "i \<in> {p}"
        proof (cases "c = c0")
          case True
          with i one show ?thesis by simp
        next
          case False
          with c none have "cands cfg conf c = []" by simp
          with i show ?thesis by simp
        qed
      qed
      show "{p} \<subseteq> (\<Union>c\<in>{1..<NUM_CLASSES cfg}. snd ` set (cands cfg conf c))"
        using c0 one by force
    qed
    then show ?thesis unfolding class_survivors_pure(4)[OF cs] .
  qed
  note ok = class_survivors_pure(1)[OF cs]
  have pin: "p \<in> dom (decoded_bboxes st1)" using dom by simp
  note lk = cache_ok_lookup[OF ok pin]
  from ok have "distinct (decode_calls st1)" "set (decode_calls st1) = {p}"
    unfolding cache_ok_def dom by simp_all
  then show "decode_calls st1 = [p]" by (rule distinct_set_single)
  have emit: "emit_results cfg conf st1 indices =
              [(make_box cfg conf st1 c0 p, lookup_vec (masks st1) p)]"
  proof -
    have "emit_results cfg conf st1 indices =
          (\<lambda>label. map (\<lambda>idx. (make_box cfg conf st1 label idx, lookup_vec (masks st1) idx))
                               (indices ! label)) c0"
      unfolding emit_results_def len
      by (rule concat_map_single) (use c0 ind in auto)
    then show ?thesis by (simp add: i0)
  qed
  show "detect applyNMS cfg loc conf mk pr [] [] st =
           (st1, [pure_box cfg conf pr loc c0 p], [mask_coeffs cfg mk p])"
    unfolding detect_out[OF cs] keep emit
    by (simp add: make_box_pure[OF lk(1)] lookup_vec_def lk(2))
qed

section \<open>The scenario of a single detection\<close>




lemma ref_simps [simp]:
  "NUM_PRIORS reference_config = 19248" "NUM_CLASSES reference_config = 81"
  "PROTO_C reference_config = 32" "PROTO_HW reference_config = 138"
  "NMS_CONF_THRESH reference_config = 0.6" "NMS_THRESH reference_config = 0.2"
  "NMS_TOP_K reference_config = 200" "KEEP_TOP_K reference_config = 15"
  by (simp_all add: reference_config_def)

text \<open>A single confidence above the threshold, at prior \<open>p\<close> and class \<open>c0\<close>.\<close>

lemma detect_single_candidate:
  assumes c0: "1 \<le> c0" "c0 < NUM_CLASSES cfg" and p: "p < NUM_PRIORS cfg"
    and hi: "conf (p * NUM_CLASSES cfg + c0) > NMS_CONF_THRESH cfg"
    and lo: "\<forall>i<NUM_PRIORS cfg. \<forall>c<NUM_CLASSES cfg. (i, c) \<noteq> (p, c0) \<longrightarrow>
               \<not> conf (i * NUM_CLASSES cfg + c) > NMS_CONF_THRESH cfg"
    and k: "0 < NMS_TOP_K cfg"
  shows "\<exists>st1. detect applyNMS cfg loc conf mk pr [] [] st =
           (st1, [pure_box cfg conf pr loc c0 p], [mask_coeffs cfg mk p]) \<and>
           decode_calls st1 = [p] \<and> snd (snd (class_survivors applyNMS cfg loc conf mk pr st)) = 1"
proof -
  obtain st1 indices num_det where
    cs: "class_survivors applyNMS cfg loc conf mk pr st = (st1, indices, num_det)"
    by (metis prod_cases3)
  have none: "\<forall>c. 1 \<le> c \<and> c < NUM_CLASSES cfg \<and> c \<noteq> c0 \<longrightarrow> cands cfg conf c = []"
  proof (intro allI impI)
    fix c assume c: "1 \<le> c \<and> c < NUM_CLASSES cfg \<and> c \<noteq> c0"
    show "cands cfg conf c = []"
      by (rule cands_none) (use lo c in \<open>auto simp: add.commute\<close>)
  qed
  have one: "cands cfg conf c0 = [(conf (c0 + p * NUM_CLASSES cfg), p)]"
    by (rule cands_single[OF p _ _ k]) (use hi lo c0 in \<open>auto simp: add.commute\<close>)
  from detect_single_class[OF c0 none one cs] cs show ?thesis by simp
qed



section \<open>Properties of the greedy pass\<close>

lemma overlap_sym: "overlap x1 w1 x2 w2 = overlap x2 w2 x1 w1"
  by (simp add: overlap_def min.commute max.commute)

lemma iou_sym: "iou a b = iou b a"
proof -
  have 1: "overlap (a ! 0) (a ! 2) (b ! 0) (b ! 2) = overlap (b ! 0) (b ! 2) (a ! 0) (a ! 2)"
    by (rule overlap_sym)
  have 2: "overlap (a ! 1) (a ! 3) (b ! 1) (b ! 3) = overlap (b ! 1) (b ! 3) (a ! 1) (a ! 3)"
    by (rule overlap_sym)
  have 3: "a ! 2 * a ! 3 + b ! 2 * b ! 3 = b ! 2 * b ! 3 + a ! 2 * a ! 3" by simp
  show ?thesis unfolding iou_def Let_def 1 2 3 ..
qed

lemma overlaps_sym: "overlaps cfg pr loc y x \<longleftrightarrow> overlaps cfg pr loc x y"
  by (simp add: overlaps_def iou_sym)

text \<open>No kept entry is suppressed by an entry kept before it.\<close>

lemma greedy_keep_no_overlap: "sorted_wrt (\<lambda>a b. \<not> ovl b a) (greedy_keep ovl es)"
proof (induction ovl es rule: greedy_keep.induct)
  case (1 ovl)
  then show ?case by simp
next
  case (2 ovl x xs)
  have "set (greedy_keep ovl (filter (\<lambda>y. \<not> ovl y x) xs)) \<subseteq> set (filter (\<lambda>y. \<not> ovl y x) xs)"
    by (rule greedy_keep_subset)
  then have a: "\<forall>y\<in>set (greedy_keep ovl (filter (\<lambda>y. \<not> ovl y x) xs)). \<not> ovl y x"
    by auto
  have b: "sorted_wrt (\<lambda>a b. \<not> ovl b a) (greedy_keep ovl (filter (\<lambda>y. \<not> ovl y x) xs))"
    by (rule 2)
  show ?case unfolding greedy_keep.simps sorted_wrt.simps using a b by blast
qed

lemma sorted_wrt_pair:
  assumes "sorted_wrt R xs" and "x \<in> set xs" and "y \<in> set xs" and "x \<noteq> y"
  shows "R x y \<or> R y x"
  using assms by (induction xs) auto

lemma greedy_keep_exclusive:
  assumes "\<And>a b. ovl a b \<longleftrightarrow> ovl b a" and "ovl y x" and "x \<noteq> y"
    and "x \<in> set (greedy_keep ovl es)"
  shows "y \<notin> set (greedy_keep ovl es)"
proof
  assume "y \<in> set (greedy_keep ovl es)"
  from sorted_wrt_pair[OF greedy_keep_no_overlap assms(4) this assms(3)]
  show False using assms(1,2) by blast
qed

text \<open>An entry that is not kept is suppressed by a kept entry ranked before it.\<close>

lemma greedy_keep_dropped:
  assumes "sorted_wrt (\<lambda>a b. f b \<le> (f a :: real)) es" and "x \<in> set es"
    and "x \<notin> set (greedy_keep ovl es)"
  shows "\<exists>z\<in>set (greedy_keep ovl es). ovl x z \<and> f x \<le> f z"
  using assms
proof (induction ovl es rule: greedy_keep.induct)
  case (1 ovl)
  then show ?case by simp
next
  case (2 ovl e rest)
  from "2.prems" have xr: "x \<in> set rest" and ne: "x \<noteq> e" by auto
  from "2.prems"(1) xr have le: "f x \<le> f e" by auto
  show ?case
  proof (cases "ovl x e")
    case True
    with le show ?thesis by auto
  next
    case False
    with xr have xf: "x \<in> set (filter (\<lambda>y. \<not> ovl y e) rest)" by simp
    have srt: "sorted_wrt (\<lambda>a b. f b \<le> f a) (filter (\<lambda>y. \<not> ovl y e) rest)"
      using "2.prems"(1) by (simp add: sorted_wrt_filter)
    from "2.prems"(3) have "x \<notin> set (greedy_keep ovl (filter (\<lambda>y. \<not> ovl y e) rest))" by simp
    from "2.IH"[OF srt xf this] show ?thesis by auto
  qed
qed

lemma cands_sorted_wrt: "sorted_wrt (\<lambda>a b. fst b \<le> fst a) (cands cfg conf c)"
proof -
  have "sorted_wrt (\<lambda>a b. - fst a \<le> - fst b) (cands cfg conf c)"
    using cands_sorted[of cfg conf c] by (simp add: sorted_map)
  then show ?thesis by simp
qed

lemma cands_distinct_idx: "distinct (map snd (cands cfg conf c))"
proof -
  let ?g = "\<lambda>i. (conf (c + i * NUM_CLASSES cfg), i)"
  let ?zs = "filter (\<lambda>p. fst p > NMS_CONF_THRESH cfg) (map ?g [0..<NUM_PRIORS cfg])"
  have "distinct (map snd (map ?g [0..<NUM_PRIORS cfg]))" by (simp add: comp_def)
  then have "distinct (map snd ?zs)" by (rule distinct_map_filter)
  then have "distinct (map snd (sort_desc fst ?zs))"
    unfolding sort_desc_def by (simp only: distinct_map distinct_sort set_sort)
  then show ?thesis unfolding cands_eq take_map[symmetric] by (rule distinct_take)
qed

lemma cands_idx_unique:
  assumes "(s, i) \<in> set (cands cfg conf c)" and "(s', i) \<in> set (cands cfg conf c)"
  shows "s = s'"
  using cands_mem(2)[OF assms(1)] cands_mem(2)[OF assms(2)] by simp

lemma survivor_idx_iff:
  assumes "(s, i) \<in> set (cands cfg conf c)"
  shows "i \<in> snd ` set (survivors cfg loc conf pr c) \<longleftrightarrow> (s, i) \<in> set (survivors cfg loc conf pr c)"
proof
  assume "i \<in> snd ` set (survivors cfg loc conf pr c)"
  then obtain s' where s': "(s', i) \<in> set (survivors cfg loc conf pr c)" by force
  with survivors_subset have "(s', i) \<in> set (cands cfg conf c)" by blast
  from cands_idx_unique[OF assms this] s' show "(s, i) \<in> set (survivors cfg loc conf pr c)" by simp
next
  assume "(s, i) \<in> set (survivors cfg loc conf pr c)"
  then show "i \<in> snd ` set (survivors cfg loc conf pr c)" by force
qed

section \<open>Two overlapping candidates\<close>

lemma level_base_0 [simp]: "level_base 0 = 0"
  by (simp add: level_base_def)

lemma prior_ref_row30:
  assumes "i < 69"
  shows "prior_ref ! (6210 + i * 3) =
         \<lparr>box_label = 0, box_score = 0, box_x = (real i + 0.5) / 69, box_y = 61 / 138,
          box_w = 12 / 275, box_h = 12 / 275\<rparr>"
proof -
  have "prior_ref ! (level_base 0 + (30 * fmap_dims ! 0 + i) * 3 + 0) =
        prior_cell \<lparr>box_label = 0, box_score = 0, box_x = 0, box_y = 0, box_w = 0, box_h = 0\<rparr> 0 30 i ! 0"
    unfolding prior_ref_def by (rule create_priors_nth) (use assms in simp_all)
  then show ?thesis
    by (simp add: prior_cell_def Let_def scales_def aspect_ratios_def max_size_def algebra_simps)
qed

lemma dbox_zero_loc: "dbox pr (\<lambda>k. 0) idx = decode_box [0, 0, 0, 0] (pr ! idx)"
  by (simp add: dbox_def loc_at_def upt_rec)

lemma dbox_6300: "dbox prior_ref (\<lambda>k. 0) 6300 = [61 / 138, 61 / 138, 12 / 275, 12 / 275]"
  unfolding dbox_zero_loc using prior_ref_row30[of 30]
  by (simp add: decode_box_def Let_def)

lemma dbox_6303: "dbox prior_ref (\<lambda>k. 0) 6303 = [63 / 138, 61 / 138, 12 / 275, 12 / 275]"
  unfolding dbox_zero_loc using prior_ref_row30[of 31]
  by (simp add: decode_box_def Let_def)

lemma dbox_6309: "dbox prior_ref (\<lambda>k. 0) 6309 = [67 / 138, 61 / 138, 12 / 275, 12 / 275]"
  unfolding dbox_zero_loc using prior_ref_row30[of 33]
  by (simp add: decode_box_def Let_def)

lemma iou_6303_6300: "iou (dbox prior_ref (\<lambda>k. 0) 6303) (dbox prior_ref (\<lambda>k. 0) 6300) = 553 / 1103"
  unfolding dbox_6300 dbox_6303 by (simp add: iou_def overlap_def Let_def)

lemma iou_6309_6303: "iou (dbox prior_ref (\<lambda>k. 0) 6309) (dbox prior_ref (\<lambda>k. 0) 6303) = 139 / 689"
  unfolding dbox_6309 dbox_6303 by (simp add: iou_def overlap_def Let_def)

lemma iou_6309_6300: "iou (dbox prior_ref (\<lambda>k. 0) 6309) (dbox prior_ref (\<lambda>k. 0) 6300) = 1 / 551"
  unfolding dbox_6309 dbox_6300 by (simp add: iou_def overlap_def Let_def)

lemma cands_pair:
  "cands reference_config conf_pair 1 = [(0.95, 6300), (0.9, 6303)]"
proof -
  have "cands reference_config conf_pair 1 =
        take (NMS_TOP_K reference_config) (sort_desc fst
          (map (\<lambda>i. (conf_pair (1 + i * NUM_CLASSES reference_config), i)) [6300, 6303]))"
  proof (rule cands_of_list)
    show "\<forall>i. (i < NUM_PRIORS reference_config \<and>
               NMS_CONF_THRESH reference_config < conf_pair (1 + i * NUM_CLASSES reference_config)) \<longleftrightarrow>
              i \<in> set [6300, 6303]"
    proof
      fix i :: nat
      have "1 + i * 81 = 510301 \<longleftrightarrow> i = 6300" "1 + i * 81 = 510544 \<longleftrightarrow> i = 6303" by presburger+
      then show "(i < NUM_PRIORS reference_config \<and>
               NMS_CONF_THRESH reference_config < conf_pair (1 + i * NUM_CLASSES reference_config)) \<longleftrightarrow>
              i \<in> set [6300, 6303]"
        by (auto simp: conf_pair_def)
    qed
  qed simp_all
  then show ?thesis by (simp add: conf_pair_def sort_desc_def)
qed

lemma cands_three:
  "cands reference_config conf_three 1 = [(0.95, 6300), (0.9, 6303), (0.8, 6309)]"
proof -
  have "cands reference_config conf_three 1 =
        take (NMS_TOP_K reference_config) (sort_desc fst
          (map (\<lambda>i. (conf_three (1 + i * NUM_CLASSES reference_config), i)) [6300, 6303, 6309]))"
  proof (rule cands_of_list)
    show "\<forall>i. (i < NUM_PRIORS reference_config \<and>
               NMS_CONF_THRESH reference_config < conf_three (1 + i * NUM_CLASSES reference_config)) \<longleftrightarrow>
              i \<in> set [6300, 6303, 6309]"
    proof
      fix i :: nat
      have "1 + i * 81 = 510301 \<longleftrightarrow> i = 6300" "1 + i * 81 = 510544 \<longleftrightarrow> i = 6303"
        "1 + i * 81 = 511030 \<longleftrightarrow> i = 6309" by presburger+
      then show "(i < NUM_PRIORS reference_config \<and>
               NMS_CONF_THRESH reference_config < conf_three (1 + i * NUM_CLASSES reference_config)) \<longleftrightarrow>
              i \<in> set [6300, 6303, 6309]"
        by (auto simp: conf_three_def)
    qed
  qed simp_all
  then show ?thesis by (simp add: conf_three_def sort_desc_def)
qed

lemma class_one_indices:
  "fst (snd (class_survivors applyNMS reference_config loc conf mk pr st)) ! 1 =
   map snd (survivors reference_config loc conf pr 1)"
proof -
  obtain st1 indices num_det where
    cs: "class_survivors applyNMS reference_config loc conf mk pr st = (st1, indices, num_det)"
    by (metis prod_cases3)
  from class_survivors_applyNMS[OF cs, of 1] show ?thesis by (simp add: cs)
qed

lemma survivors_three:
  "survivors reference_config (\<lambda>k. 0) conf_three prior_ref 1 = [(0.95, 6300), (0.8, 6309)]"
  unfolding survivors_def cands_three
  by (simp add: overlaps_def iou_6303_6300 iou_6309_6300)

lemma survivors_pair:
  "survivors reference_config (\<lambda>k. 0) conf_pair prior_ref 1 = [(0.95, 6300)]"
  unfolding survivors_def cands_pair
  by (simp add: overlaps_def iou_6303_6300)

text \<open>
  Claim C2, as amended.  For two ranked candidates of one class (both above the
  confidence threshold) with different scores whose decoded boxes have an IoU above the
  suppression threshold: when the higher-scoring one survives, the lower-scoring one does
  not; the higher-scoring one fails to survive only when a surviving candidate ranked
  at least as high overlaps it above the threshold; and when the class has just these
  two candidates, exactly the higher-scoring one survives.
\<close>

theorem nms_pair_suppression:
  assumes c: "1 \<le> c" "c < NUM_CLASSES cfg"
    and x: "(sx, ix) \<in> set (get_one_class_max_score_index cfg conf_data c [])"
    and y: "(sy, iy) \<in> set (get_one_class_max_score_index cfg conf_data c [])"
    and lt: "sy < sx"
    and ov: "NMS_THRESH cfg < iou (dbox prior_data loc_data iy) (dbox prior_data loc_data ix)"
  shows "let ind = fst (snd (class_survivors applyNMS cfg loc_data conf_data mask_data prior_data st)) ! c
         in (ix \<in> set ind \<longrightarrow> iy \<notin> set ind) \<and>
            (ix \<notin> set ind \<longrightarrow>
               (\<exists>sz iz. (sz, iz) \<in> set (get_one_class_max_score_index cfg conf_data c []) \<and>
                  sx \<le> sz \<and> iz \<in> set ind \<and>
                  NMS_THRESH cfg < iou (dbox prior_data loc_data ix) (dbox prior_data loc_data iz))) \<and>
            (get_one_class_max_score_index cfg conf_data c [] = [(sx, ix), (sy, iy)] \<longrightarrow>
               ind = [ix])"
proof -
  obtain st1 indices num_det where
    cs: "class_survivors applyNMS cfg loc_data conf_data mask_data prior_data st = (st1, indices, num_det)"
    by (metis prod_cases3)
  let ?S = "survivors cfg loc_data conf_data prior_data c"
  let ?ovl = "overlaps cfg prior_data loc_data"
  have ind: "indices ! c = map snd ?S" by (rule class_survivors_applyNMS[OF cs c])
  have xc: "(sx, ix) \<in> set (cands cfg conf_data c)" and yc: "(sy, iy) \<in> set (cands cfg conf_data c)"
    using x y by (simp_all add: cands_def)
  have oyx: "?ovl (sy, iy) (sx, ix)" using ov by (simp add: overlaps_def)
  have ne: "(sx, ix) \<noteq> (sy, iy)" using lt by simp
  have 1: "ix \<in> set (indices ! c) \<longrightarrow> iy \<notin> set (indices ! c)"
  proof
    assume "ix \<in> set (indices ! c)"
    then have "(sx, ix) \<in> set ?S" unfolding ind using survivor_idx_iff[OF xc] by simp
    then have "(sx, ix) \<in> set (greedy_keep ?ovl (cands cfg conf_data c))" by (simp add: survivors_def)
    from greedy_keep_exclusive[of ?ovl, OF overlaps_sym oyx ne this]
    have "(sy, iy) \<notin> set ?S" by (simp add: survivors_def)
    then show "iy \<notin> set (indices ! c)" unfolding ind using survivor_idx_iff[OF yc] by simp
  qed
  have 2: "ix \<notin> set (indices ! c) \<longrightarrow>
               (\<exists>sz iz. (sz, iz) \<in> set (get_one_class_max_score_index cfg conf_data c []) \<and>
                  sx \<le> sz \<and> iz \<in> set (indices ! c) \<and>
                  NMS_THRESH cfg < iou (dbox prior_data loc_data ix) (dbox prior_data loc_data iz))"
  proof
    assume "ix \<notin> set (indices ! c)"
    then have "(sx, ix) \<notin> set (greedy_keep ?ovl (cands cfg conf_data c))"
      unfolding ind using survivor_idx_iff[OF xc, of loc_data prior_data] by (simp add: survivors_def)
    from greedy_keep_dropped[of fst, OF cands_sorted_wrt xc this]
    obtain z where z: "z \<in> set ?S" "?ovl (sx, ix) z" "sx \<le> fst z"
      by (auto simp: survivors_def)
    from z(1) survivors_subset have "z \<in> set (cands cfg conf_data c)" by blast
    moreover from z(1) have "snd z \<in> set (indices ! c)" unfolding ind by simp
    ultimately show "\<exists>sz iz. (sz, iz) \<in> set (get_one_class_max_score_index cfg conf_data c []) \<and>
                  sx \<le> sz \<and> iz \<in> set (indices ! c) \<and>
                  NMS_THRESH cfg < iou (dbox prior_data loc_data ix) (dbox prior_data loc_data iz)"
      using z(2,3) by (intro exI[of _ "fst z"] exI[of _ "snd z"]) (simp add: cands_def overlaps_def)
  qed
  have 3: "get_one_class_max_score_index cfg conf_data c [] = [(sx, ix), (sy, iy)] \<longrightarrow>
               indices ! c = [ix]"
  proof
    assume "get_one_class_max_score_index cfg conf_data c [] = [(sx, ix), (sy, iy)]"
    then have "cands cfg conf_data c = [(sx, ix), (sy, iy)]" by (simp add: cands_def)
    then have "?S = [(sx, ix)]" using oyx by (simp add: survivors_def)
    then show "indices ! c = [ix]" by (simp add: ind)
  qed
  from 1 2 3 show ?thesis by (simp add: cs Let_def)
qed

theorem nms_pair_suppression_witness:
  "(0.95, 6300) \<in> set (get_one_class_max_score_index reference_config conf_pair 1 []) \<and>
   (0.9, 6303) \<in> set (get_one_class_max_score_index reference_config conf_pair 1 []) \<and>
   NMS_THRESH reference_config < iou (dbox prior_ref (\<lambda>k. 0) 6303) (dbox prior_ref (\<lambda>k. 0) 6300) \<and>
   fst (snd (class_survivors applyNMS reference_config (\<lambda>k. 0) conf_pair (\<lambda>k. 0) prior_ref st_empty)) ! 1
     = [6300]"
proof -
  have cp: "get_one_class_max_score_index reference_config conf_pair 1 [] = [(0.95, 6300), (0.9, 6303)]"
    using cands_pair by (simp add: cands_def)
  have x: "(0.95, 6300) \<in> set (get_one_class_max_score_index reference_config conf_pair 1 [])"
    and y: "(0.9, 6303) \<in> set (get_one_class_max_score_index reference_config conf_pair 1 [])"
    unfolding cp by simp_all
  have ov: "NMS_THRESH reference_config < iou (dbox prior_ref (\<lambda>k. 0) 6303) (dbox prior_ref (\<lambda>k. 0) 6300)"
    by (simp add: iou_6303_6300)
  have c: "(1::nat) \<le> 1" "1 < NUM_CLASSES reference_config" and lt: "(0.9::real) < 0.95" by simp_all
  from nms_pair_suppression[OF c x y lt ov, of "\<lambda>k. 0" st_empty] cp x y ov
  show ?thesis unfolding Let_def by blast
qed

text \<open>
  The claim as stated fails with a third candidate: prior 6300 (score 0.95) suppresses
  prior 6303 (score 0.9), and prior 6309 (score 0.8), whose IoU with 6303 is above the
  threshold but whose IoU with 6300 is not, survives in its place.
\<close>

theorem nms_pair_counterexample:
  "(0.9, 6303) \<in> set (get_one_class_max_score_index reference_config conf_three 1 []) \<and>
   (0.8, 6309) \<in> set (get_one_class_max_score_index reference_config conf_three 1 []) \<and>
   NMS_THRESH reference_config < iou (dbox prior_ref (\<lambda>k. 0) 6309) (dbox prior_ref (\<lambda>k. 0) 6303) \<and>
   fst (snd (class_survivors applyNMS reference_config (\<lambda>k. 0) conf_three (\<lambda>k. 0) prior_ref st_empty)) ! 1
     = [6300, 6309]"
proof -
  have cp: "get_one_class_max_score_index reference_config conf_three 1 [] =
            [(0.95, 6300), (0.9, 6303), (0.8, 6309)]"
    using cands_three by (simp add: cands_def)
  have ov: "NMS_THRESH reference_config < iou (dbox prior_ref (\<lambda>k. 0) 6309) (dbox prior_ref (\<lambda>k. 0) 6303)"
    by (simp add: iou_6309_6303)
  have "(0.9, 6303) \<in> set (get_one_class_max_score_index reference_config conf_three 1 [])"
    and "(0.8, 6309) \<in> set (get_one_class_max_score_index reference_config conf_three 1 [])"
    unfolding cp by simp_all
  then show ?thesis unfolding class_one_indices survivors_three using ov by simp
qed

section \<open>Raising the confidence threshold\<close>





lemma overlaps_raise [simp]:
  "overlaps (cfg\<lparr>NMS_CONF_THRESH := t'\<rparr>) pr loc = overlaps cfg pr loc"
  by (rule ext, rule ext) (simp add: overlaps_def)










lemma raise_fields [simp]:
  "pure_box (cfg\<lparr>NMS_CONF_THRESH := t'\<rparr>) conf pr loc c idx = pure_box cfg conf pr loc c idx"
  "mask_coeffs (cfg\<lparr>NMS_CONF_THRESH := t'\<rparr>) mk idx = mask_coeffs cfg mk idx"
  by (simp_all add: pure_box_def mask_coeffs_def)




section \<open>Concrete instances\<close>

lemma conf_one_scenario:
  "\<exists>st1. detect applyNMS reference_config loc conf_one mk pr [] [] st =
           (st1, [pure_box reference_config conf_one pr loc 3 0], [mask_coeffs reference_config mk 0]) \<and>
           decode_calls st1 = [0] \<and>
           snd (snd (class_survivors applyNMS reference_config loc conf_one mk pr st)) = 1"
proof (rule detect_single_candidate)
  show "\<forall>i<NUM_PRIORS reference_config. \<forall>c<NUM_CLASSES reference_config. (i, c) \<noteq> (0, 3) \<longrightarrow>
               \<not> conf_one (i * NUM_CLASSES reference_config + c) > NMS_CONF_THRESH reference_config"
  proof (intro allI impI)
    fix i c :: nat assume "(i, c) \<noteq> (0, 3)"
    then have "i * 81 + c \<noteq> 3" by (cases i) auto
    then show "\<not> conf_one (i * NUM_CLASSES reference_config + c) > NMS_CONF_THRESH reference_config"
      by (simp add: conf_one_def)
  qed
qed (simp_all add: conf_one_def)

theorem detect_global_cap_witness:
  "0 < KEEP_TOP_K reference_config \<and>
   snd (snd (class_survivors applyNMS reference_config (\<lambda>k. 0) conf_one (\<lambda>k. 1) prior_ref st_empty))
     \<le> KEEP_TOP_K reference_config \<and>
   length (fst (snd (detect applyNMS reference_config (\<lambda>k. 0) conf_one (\<lambda>k. 1) prior_ref [] [] st_empty)))
     \<le> KEEP_TOP_K reference_config \<and>
   fst (snd (detect applyNMS reference_config (\<lambda>k. 0) conf_one (\<lambda>k. 1) prior_ref [] [] st_empty)) =
     concat (map (\<lambda>c. map (make_box reference_config conf_one
                    (fst (class_survivors applyNMS reference_config (\<lambda>k. 0) conf_one (\<lambda>k. 1) prior_ref st_empty)) c)
                  (fst (snd (class_survivors applyNMS reference_config (\<lambda>k. 0) conf_one (\<lambda>k. 1) prior_ref st_empty)) ! c))
             [1..<NUM_CLASSES reference_config])"
proof -
  from conf_one_scenario[where loc="\<lambda>k. 0" and mk="\<lambda>k. 1" and pr=prior_ref and st=st_empty]
  have n: "snd (snd (class_survivors applyNMS reference_config (\<lambda>k. 0) conf_one (\<lambda>k. 1) prior_ref st_empty)) = 1"
    by blast
  have k: "0 < KEEP_TOP_K reference_config" by simp
  from detect_global_cap[where nmsf=applyNMS and cfg=reference_config and loc_data="\<lambda>k. 0"
         and conf_data=conf_one and mask_data="\<lambda>k. 1" and prior_data=prior_ref and st=st_empty] n k
  show ?thesis
    by (auto split: prod.splits)
qed

theorem decode_at_most_once_witness:
  "0 \<in> set (decode_calls (fst (detect applyNMS reference_config (\<lambda>k. 0) conf_one (\<lambda>k. 1) prior_ref [] [] st_empty))) \<and>
   decoded_bboxes (fst (detect applyNMS reference_config (\<lambda>k. 0) conf_one (\<lambda>k. 1) prior_ref [] [] st_empty)) 0 =
     Some (dbox prior_ref (\<lambda>k. 0) 0) \<and>
   decoded_bboxes st_cached 7 = Some [0.5, 0.5, 0.25, 0.25] \<and>
   decoded_bboxes (fst (apply_one_class_nms applyNMS reference_config (\<lambda>k. 0) (\<lambda>k. 1) prior_ref 3
                          [(0.9, 7)] st_cached)) 7 = Some [0.5, 0.5, 0.25, 0.25] \<and>
   count_list (decode_calls (fst (apply_one_class_nms applyNMS reference_config (\<lambda>k. 0) (\<lambda>k. 1) prior_ref 3
                          [(0.9, 7)] st_cached))) 7 = 1"
proof -
  from conf_one_scenario[where loc="\<lambda>k. 0" and mk="\<lambda>k. 1" and pr=prior_ref and st=st_empty]
  have c: "decode_calls (fst (detect applyNMS reference_config (\<lambda>k. 0) conf_one (\<lambda>k. 1) prior_ref [] [] st_empty)) = [0]"
    by auto
  have h: "decoded_bboxes st_cached 7 = Some [0.5, 0.5, 0.25, 0.25]"
    and n: "count_list (decode_calls st_cached) 7 = 1"
    by (simp_all add: st_cached_def)
  from decode_at_most_once[where nmsf=applyNMS and cfg=reference_config and loc_data="\<lambda>k. 0"
         and conf_data=conf_one and mask_data="\<lambda>k. 1" and prior_data=prior_ref
         and box_result="[]" and mask_result="[]" and st=st_empty]
  show ?thesis using c h n unfolding Let_def by auto
qed

theorem output_scores_pass_gate_witness:
  "0 < length (fst (snd (detect applyNMS reference_config (\<lambda>k. 0) conf_one (\<lambda>k. 1) prior_ref [] [] st_empty))) \<and>
   NMS_CONF_THRESH reference_config <
     box_score (fst (snd (detect applyNMS reference_config (\<lambda>k. 0) conf_one (\<lambda>k. 1) prior_ref [] [] st_empty)) ! 0) \<and>
   (\<exists>idx<NUM_PRIORS reference_config.
      box_score (fst (snd (detect applyNMS reference_config (\<lambda>k. 0) conf_one (\<lambda>k. 1) prior_ref [] [] st_empty)) ! 0) =
      conf_one (idx * NUM_CLASSES reference_config +
        box_label (fst (snd (detect applyNMS reference_config (\<lambda>k. 0) conf_one (\<lambda>k. 1) prior_ref [] [] st_empty)) ! 0)))"
proof -
  from conf_one_scenario[where loc="\<lambda>k. 0" and mk="\<lambda>k. 1" and pr=prior_ref and st=st_empty]
  have l: "0 < length (fst (snd (detect applyNMS reference_config (\<lambda>k. 0) conf_one (\<lambda>k. 1) prior_ref [] [] st_empty)))"
    by auto
  from output_scores_pass_gate[where cfg=reference_config and loc_data="\<lambda>k. 0"
         and conf_data=conf_one and mask_data="\<lambda>k. 1" and prior_data=prior_ref and st=st_empty] l
  show ?thesis
    by (auto split: prod.splits)
qed

theorem create_priors_layout_witness:
  "box_x (prior_ref ! 6300) = 61 / 138 \<and> box_y (prior_ref ! 6300) = 61 / 138 \<and>
   box_w (prior_ref ! 6300) = 24 / 550 \<and> box_h (prior_ref ! 6300) = 24 / 550 \<and>
   length prior_ref = 19248"
proof -
  let ?pb = "\<lparr>box_label = 0, box_score = 0, box_x = 0, box_y = 0, box_w = 0, box_h = 0\<rparr>"
  have k: "(0::nat) < 5" and j: "(30::nat) < fmap_dims ! 0" and r: "(0::nat) < 3" by simp_all
  have idx: "level_base 0 + (30 * fmap_dims ! 0 + 30) * 3 + 0 = 6300" by simp
  from create_priors_layout[of ?pb]
  have len: "length (create_priors ?pb) = 19248"
    and all: "\<forall>k<5. \<forall>j<fmap_dims ! k. \<forall>i<fmap_dims ! k. \<forall>r<3.
      let b = create_priors ?pb ! (level_base k + (j * fmap_dims ! k + i) * 3 + r)
      in box_x b = (real i + 0.5) / real (fmap_dims ! k) \<and>
         box_y b = (real j + 0.5) / real (fmap_dims ! k) \<and>
         box_w b = real (scales ! k) * ([1, 0.5, 2] ! r) / 550 \<and>
         box_h b = real (scales ! k) * ([1, 0.5, 2] ! r) / 550"
    by blast+
  from all k j r
  have "let b = create_priors ?pb ! (level_base 0 + (30 * fmap_dims ! 0 + 30) * 3 + 0)
      in box_x b = (real 30 + 0.5) / real (fmap_dims ! 0) \<and>
         box_y b = (real 30 + 0.5) / real (fmap_dims ! 0) \<and>
         box_w b = real (scales ! 0) * ([1, 0.5, 2] ! 0) / 550 \<and>
         box_h b = real (scales ! 0) * ([1, 0.5, 2] ! 0) / 550"
    by blast
  then show ?thesis
    unfolding idx Let_def using len by (simp add: prior_ref_def scales_def)
qed


section \<open>Tensor shapes in postprocess\<close>








end
